theory Spec2Isabelle
  imports Main "HOL-Library.Word"
begin

unbundle bit_operations_syntax

section \<open>Bytes and Go integers\<close>

text \<open>
  A Go \<^verbatim>\<open>byte\<close> is an 8-bit word; \<^verbatim>\<open>uint16\<close>, \<^verbatim>\<open>uint32\<close> and \<^verbatim>\<open>uint64\<close> are words of
  their width. Go's \<^verbatim>\<open>int\<close> is modelled as a mathematical integer together with the
  wrap-around of a 64-bit two's complement machine word, written out by \<open>go_int\<close> at every
  addition whose operands the caller controls (the configured adjustments). Lengths of slices
  are never wrapped: a slice that exists has a length that fits.
\<close>

type_synonym byte = "8 word"

definition go_int :: "int \<Rightarrow> int" where
  "go_int x = signed_take_bit 63 x"

text \<open>Go's \<^verbatim>\<open>%\<close> truncates towards zero: the remainder has the sign of the dividend.\<close>

definition go_rem :: "int \<Rightarrow> int \<Rightarrow> int" where
  "go_rem a b = sgn a * (\<bar>a\<bar> mod \<bar>b\<bar>)"

section \<open>Errors, panics and results\<close>

text \<open>
  The error values of \<^verbatim>\<open>codec.go\<close>. The three \<^verbatim>\<open>fmt.Errorf\<close> errors of the length-field
  encoder ("length does not fit into a byte / a short integer / a medium integer: %d")
  are one constructor that carries the width named in the message and the offending length.
\<close>

datatype field_width = ByteWidth | ShortInteger | MediumInteger

datatype error =
    ErrCRLFNotFound
  | ErrDelimiterNotFound
  | ErrUnexpectedEOF
  | ErrUnsupportedLength
  | ErrInvalidFixedLength
  | ErrTooLessLength
  | ErrLengthDoesNotFit field_width int

text \<open>A run-time panic is not a returned error: it is an outcome of its own.\<close>

datatype panic = IntegerDivideByZero | SliceBoundsOutOfRange | IndexOutOfRange

datatype 'a result = Ok 'a | Err error | Panic panic

section \<open>The inbound ring buffer\<close>

text \<open>
  Modelled from the spec: the ring buffer (package \<^verbatim>\<open>ringbuffer\<close>, type \<^verbatim>\<open>RingBuffer\<close>) is
  imported by \<^verbatim>\<open>connection_windows.go\<close> and is not among the sources. The spec describes it as
  a fixed-capacity circular byte store whose contents are exposed as up to two contiguous
  slices that together form the full contents in order (\<^verbatim>\<open>peek_two\<close>), with \<^verbatim>\<open>peek_n(n)\<close>
  returning the first \<^verbatim>\<open>n\<close> bytes as two slices without advancing, \<^verbatim>\<open>advance(n)\<close>, \<^verbatim>\<open>reset\<close>,
  \<^verbatim>\<open>is_empty\<close> and \<^verbatim>\<open>len\<close>. The state kept here is exactly that pair of slices: the run from
  the read position to the end of the storage, and the run that wrapped around to its start.
  The operations carry the names under which the connection calls them (\<^verbatim>\<open>Length\<close>, \<^verbatim>\<open>IsEmpty\<close>,
  \<^verbatim>\<open>LazyRead\<close>, \<^verbatim>\<open>Shift\<close>, \<^verbatim>\<open>Reset\<close>, \<^verbatim>\<open>WithByteBuffer\<close>).
\<close>

record RingBuffer =
  head_slice :: "byte list"
  tail_slice :: "byte list"

text \<open>
  Modelled from the spec: the full contents in order, the two slices of \<^verbatim>\<open>peek_two\<close> one after
  the other.
\<close>

definition RingBuffer_bytes :: "RingBuffer \<Rightarrow> byte list" where
  "RingBuffer_bytes rb = head_slice rb @ tail_slice rb"

text \<open>Modelled from the spec: \<^verbatim>\<open>len\<close>, the number of bytes held (\<^verbatim>\<open>Length\<close>).\<close>

definition RingBuffer_Length :: "RingBuffer \<Rightarrow> int" where
  "RingBuffer_Length rb = int (length (head_slice rb) + length (tail_slice rb))"

text \<open>Modelled from the spec: \<^verbatim>\<open>is_empty\<close> (\<^verbatim>\<open>IsEmpty\<close>).\<close>

definition RingBuffer_IsEmpty :: "RingBuffer \<Rightarrow> bool" where
  "RingBuffer_IsEmpty rb = (RingBuffer_Length rb = 0)"

text \<open>
  Modelled from the spec: \<^verbatim>\<open>peek_n(n)\<close>, the first \<open>n\<close> bytes as two slices, without advancing
  (\<^verbatim>\<open>LazyRead\<close>). A request for more than the ring holds yields all of it.
\<close>

definition RingBuffer_LazyRead :: "RingBuffer \<Rightarrow> int \<Rightarrow> byte list \<times> byte list" where
  "RingBuffer_LazyRead rb n =
     (take (nat n) (head_slice rb),
      take (nat n - length (head_slice rb)) (tail_slice rb))"

text \<open>Modelled from the spec: \<^verbatim>\<open>reset\<close>, after which the ring is empty (\<^verbatim>\<open>Reset\<close>).\<close>

definition RingBuffer_Reset :: "RingBuffer \<Rightarrow> RingBuffer" where
  "RingBuffer_Reset rb = rb\<lparr>head_slice := [], tail_slice := []\<rparr>"

text \<open>
  Modelled from the spec: \<^verbatim>\<open>advance(n)\<close>, which drops the first \<open>n\<close> bytes (\<^verbatim>\<open>Shift\<close>). Once the
  read position has passed the end of the storage, the bytes that had wrapped around are one
  contiguous run.
\<close>

definition RingBuffer_Shift :: "RingBuffer \<Rightarrow> int \<Rightarrow> RingBuffer" where
  "RingBuffer_Shift rb n =
     (if n \<le> 0 then rb
      else if nat n < length (head_slice rb)
        then rb\<lparr>head_slice := drop (nat n) (head_slice rb)\<rparr>
      else rb\<lparr>head_slice := drop (nat n - length (head_slice rb)) (tail_slice rb),
              tail_slice := []\<rparr>)"

text \<open>
  Modelled from the spec: the join buffer that \<^verbatim>\<open>peek_all\<close> materialises, the ring's contents
  followed by the scratch contents (\<^verbatim>\<open>WithByteBuffer\<close>).
\<close>

definition RingBuffer_WithByteBuffer :: "RingBuffer \<Rightarrow> byte list \<Rightarrow> byte list" where
  "RingBuffer_WithByteBuffer rb b = head_slice rb @ tail_slice rb @ b"

section \<open>The connection's read buffers (connection_windows.go)\<close>

text \<open>
  Of \<^verbatim>\<open>stdConn\<close> the three buffer fields are kept: \<open>buffer\<close> (the bytes of the latest read,
  the spec's scratch buffer), \<open>inboundBuffer\<close> (the ring) and \<open>byteBuffer\<close> (the cached join
  buffer, \<open>None\<close> for \<^verbatim>\<open>nil\<close>). A byte buffer of the pool is its contents \<^verbatim>\<open>B\<close>. Slices are
  returned by value: the bytes they hold when the call returns.
\<close>

record stdConn =
  buffer :: "byte list"
  byteBuffer :: "byte list option"
  inboundBuffer :: RingBuffer

text \<open>The logically readable bytes: the ring holds the older prefix, the scratch the rest.\<close>

definition conn_bytes :: "stdConn \<Rightarrow> byte list" where
  "conn_bytes c = RingBuffer_bytes (inboundBuffer c) @ buffer c"

definition Read :: "stdConn \<Rightarrow> byte list \<times> stdConn" where
  "Read c =
     (if RingBuffer_IsEmpty (inboundBuffer c) then
        (if int (length (buffer c)) = 0 then ([], c) else (buffer c, c))
      else
        (let bb = RingBuffer_WithByteBuffer (inboundBuffer c) (buffer c)
         in (bb, c\<lparr>byteBuffer := Some bb\<rparr>)))"

definition ResetBuffer :: "stdConn \<Rightarrow> stdConn" where
  "ResetBuffer c =
     c\<lparr>buffer := [], inboundBuffer := RingBuffer_Reset (inboundBuffer c), byteBuffer := None\<rparr>"

definition ReadN :: "stdConn \<Rightarrow> int \<Rightarrow> (int \<times> byte list) \<times> stdConn" where
  "ReadN c n0 =
     (let inBufferLen = RingBuffer_Length (inboundBuffer c);
          tempBufferLen = int (length (buffer c));
          totalLen = inBufferLen + tempBufferLen;
          n = (if totalLen < n0 \<or> n0 \<le> 0 then totalLen else n0)
      in if RingBuffer_IsEmpty (inboundBuffer c) then ((n, take (nat n) (buffer c)), c)
         else
           (let (head, tail) = RingBuffer_LazyRead (inboundBuffer c) n;
                bb = head @ tail
            in if inBufferLen \<ge> n then ((n, bb), c\<lparr>byteBuffer := Some bb\<rparr>)
               else
                 (let restSize = n - inBufferLen;
                      bb' = bb @ take (nat restSize) (buffer c)
                  in ((n, bb'), c\<lparr>byteBuffer := Some bb'\<rparr>))))"

definition ShiftN :: "stdConn \<Rightarrow> int \<Rightarrow> int \<times> stdConn" where
  "ShiftN c n =
     (let inBufferLen = RingBuffer_Length (inboundBuffer c);
          tempBufferLen = int (length (buffer c))
      in if inBufferLen + tempBufferLen < n \<or> n \<le> 0
           then (inBufferLen + tempBufferLen, ResetBuffer c)
         else if RingBuffer_IsEmpty (inboundBuffer c)
           then (n, c\<lparr>buffer := drop (nat n) (buffer c)\<rparr>)
         else if inBufferLen \<ge> n
           then (n, c\<lparr>byteBuffer := None,
                       inboundBuffer := RingBuffer_Shift (inboundBuffer c) n\<rparr>)
         else
           (let restSize = n - inBufferLen
            in (n, c\<lparr>byteBuffer := None,
                       inboundBuffer := RingBuffer_Reset (inboundBuffer c),
                       buffer := drop (nat restSize) (buffer c)\<rparr>)))"

definition BufferLength :: "stdConn \<Rightarrow> int" where
  "BufferLength c = RingBuffer_Length (inboundBuffer c) + int (length (buffer c))"

section \<open>Byte orders (encoding/binary)\<close>

text \<open>
  \<^verbatim>\<open>binary.ByteOrder\<close> is one of the two byte orders of Go's standard library. Each reader
  checks the length of its slice first (\<^verbatim>\<open>_ = b[1]\<close>) and panics on a shorter one: \<open>None\<close>
  here. Each writer fills a freshly made slice of the field's length, which is the value.
\<close>

datatype ByteOrder = LittleEndian | BigEndian

definition Uint16 :: "ByteOrder \<Rightarrow> byte list \<Rightarrow> 16 word option" where
  "Uint16 bo b =
     (if length b < 2 then None
      else Some (case bo of
        LittleEndian \<Rightarrow> ucast (b ! 0) OR push_bit 8 (ucast (b ! 1))
      | BigEndian \<Rightarrow> ucast (b ! 1) OR push_bit 8 (ucast (b ! 0))))"

definition PutUint16 :: "ByteOrder \<Rightarrow> 16 word \<Rightarrow> byte list" where
  "PutUint16 bo v =
     (case bo of
        LittleEndian \<Rightarrow> [ucast v, ucast (drop_bit 8 v)]
      | BigEndian \<Rightarrow> [ucast (drop_bit 8 v), ucast v])"

definition Uint32 :: "ByteOrder \<Rightarrow> byte list \<Rightarrow> 32 word option" where
  "Uint32 bo b =
     (if length b < 4 then None
      else Some (case bo of
        LittleEndian \<Rightarrow>
          ucast (b ! 0) OR push_bit 8 (ucast (b ! 1)) OR push_bit 16 (ucast (b ! 2))
            OR push_bit 24 (ucast (b ! 3))
      | BigEndian \<Rightarrow>
          ucast (b ! 3) OR push_bit 8 (ucast (b ! 2)) OR push_bit 16 (ucast (b ! 1))
            OR push_bit 24 (ucast (b ! 0))))"

definition PutUint32 :: "ByteOrder \<Rightarrow> 32 word \<Rightarrow> byte list" where
  "PutUint32 bo v =
     (case bo of
        LittleEndian \<Rightarrow>
          [ucast v, ucast (drop_bit 8 v), ucast (drop_bit 16 v), ucast (drop_bit 24 v)]
      | BigEndian \<Rightarrow>
          [ucast (drop_bit 24 v), ucast (drop_bit 16 v), ucast (drop_bit 8 v), ucast v])"

definition Uint64 :: "ByteOrder \<Rightarrow> byte list \<Rightarrow> 64 word option" where
  "Uint64 bo b =
     (if length b < 8 then None
      else Some (case bo of
        LittleEndian \<Rightarrow>
          ucast (b ! 0) OR push_bit 8 (ucast (b ! 1)) OR push_bit 16 (ucast (b ! 2))
            OR push_bit 24 (ucast (b ! 3)) OR push_bit 32 (ucast (b ! 4))
            OR push_bit 40 (ucast (b ! 5)) OR push_bit 48 (ucast (b ! 6))
            OR push_bit 56 (ucast (b ! 7))
      | BigEndian \<Rightarrow>
          ucast (b ! 7) OR push_bit 8 (ucast (b ! 6)) OR push_bit 16 (ucast (b ! 5))
            OR push_bit 24 (ucast (b ! 4)) OR push_bit 32 (ucast (b ! 3))
            OR push_bit 40 (ucast (b ! 2)) OR push_bit 48 (ucast (b ! 1))
            OR push_bit 56 (ucast (b ! 0))))"

definition PutUint64 :: "ByteOrder \<Rightarrow> 64 word \<Rightarrow> byte list" where
  "PutUint64 bo v =
     (case bo of
        LittleEndian \<Rightarrow>
          [ucast v, ucast (drop_bit 8 v), ucast (drop_bit 16 v), ucast (drop_bit 24 v),
           ucast (drop_bit 32 v), ucast (drop_bit 40 v), ucast (drop_bit 48 v),
           ucast (drop_bit 56 v)]
      | BigEndian \<Rightarrow>
          [ucast (drop_bit 56 v), ucast (drop_bit 48 v), ucast (drop_bit 40 v),
           ucast (drop_bit 32 v), ucast (drop_bit 24 v), ucast (drop_bit 16 v),
           ucast (drop_bit 8 v), ucast v])"

text \<open>
  \<^verbatim>\<open>readUint24\<close> and \<^verbatim>\<open>writeUint24\<close> of \<^verbatim>\<open>codec.go\<close>. The writer takes an \<^verbatim>\<open>int\<close>: \<^verbatim>\<open>byte(v)\<close>
  keeps the low eight bits and \<^verbatim>\<open>v >> 8\<close> is the arithmetic shift. Every byte order that is
  not \<^verbatim>\<open>binary.LittleEndian\<close> takes the big-endian branch.
\<close>

definition readUint24 :: "ByteOrder \<Rightarrow> byte list \<Rightarrow> 64 word option" where
  "readUint24 byteOrder b =
     (if length b < 3 then None
      else if byteOrder = LittleEndian
        then Some (ucast (b ! 0) OR push_bit 8 (ucast (b ! 1)) OR push_bit 16 (ucast (b ! 2)))
      else Some (ucast (b ! 2) OR push_bit 8 (ucast (b ! 1)) OR push_bit 16 (ucast (b ! 0))))"

definition writeUint24 :: "ByteOrder \<Rightarrow> int \<Rightarrow> byte list" where
  "writeUint24 byteOrder v =
     (if byteOrder = LittleEndian
        then [word_of_int v, word_of_int (drop_bit 8 v), word_of_int (drop_bit 16 v)]
      else [word_of_int (drop_bit 16 v), word_of_int (drop_bit 8 v), word_of_int v])"

section \<open>The codecs (codec.go)\<close>

definition CRLFByte :: byte where
  "CRLFByte = 10"

text \<open>\<^verbatim>\<open>bytes.IndexByte\<close>: the index of the first instance of \<open>c\<close>, or \<open>-1\<close>.\<close>

fun IndexByte :: "byte list \<Rightarrow> byte \<Rightarrow> int" where
  "IndexByte [] c = -1"
| "IndexByte (x # xs) c =
     (if x = c then 0
      else (let i = IndexByte xs c in if i = -1 then -1 else i + 1))"

record EncoderConfig =
  enc_ByteOrder :: ByteOrder
  enc_LengthFieldLength :: int
  enc_LengthAdjustment :: int
  enc_LengthIncludesLengthFieldLength :: bool

record DecoderConfig =
  dec_ByteOrder :: ByteOrder
  dec_LengthFieldOffset :: int
  dec_LengthFieldLength :: int
  dec_LengthAdjustment :: int
  dec_InitialBytesToStrip :: int

text \<open>The five implementations of the interface \<^verbatim>\<open>ICodec\<close>, each with its configuration.\<close>

datatype ICodec =
    BuiltInFrameCodec
  | LineBasedFrameCodec
  | DelimiterBasedFrameCodec byte
  | FixedLengthFrameCodec int
  | LengthFieldBasedFrameCodec EncoderConfig DecoderConfig

subsection \<open>Pass-through, line, delimiter and fixed-length codecs\<close>

definition BuiltInFrameCodec_Encode :: "byte list \<Rightarrow> byte list result" where
  "BuiltInFrameCodec_Encode buf = Ok buf"

definition BuiltInFrameCodec_Decode :: "stdConn \<Rightarrow> byte list result \<times> stdConn" where
  "BuiltInFrameCodec_Decode c = (let (buf, c1) = Read c in (Ok buf, ResetBuffer c1))"

definition LineBasedFrameCodec_Encode :: "byte list \<Rightarrow> byte list result" where
  "LineBasedFrameCodec_Encode buf = Ok (buf @ [CRLFByte])"

definition LineBasedFrameCodec_Decode :: "stdConn \<Rightarrow> byte list result \<times> stdConn" where
  "LineBasedFrameCodec_Decode c =
     (let (buf, c1) = Read c;
          idx = IndexByte buf CRLFByte
      in if idx = -1 then (Err ErrCRLFNotFound, c1)
         else (let (n, c2) = ShiftN c1 (idx + 1) in (Ok (take (nat idx) buf), c2)))"

definition DelimiterBasedFrameCodec_Encode :: "byte \<Rightarrow> byte list \<Rightarrow> byte list result" where
  "DelimiterBasedFrameCodec_Encode delimiter buf = Ok (buf @ [delimiter])"

definition DelimiterBasedFrameCodec_Decode ::
  "byte \<Rightarrow> stdConn \<Rightarrow> byte list result \<times> stdConn" where
  "DelimiterBasedFrameCodec_Decode delimiter c =
     (let (buf, c1) = Read c;
          idx = IndexByte buf delimiter
      in if idx = -1 then (Err ErrDelimiterNotFound, c1)
         else (let (n, c2) = ShiftN c1 (idx + 1) in (Ok (take (nat idx) buf), c2)))"

text \<open>The remainder by a zero frame length is Go's integer-divide-by-zero panic.\<close>

definition FixedLengthFrameCodec_Encode :: "int \<Rightarrow> byte list \<Rightarrow> byte list result" where
  "FixedLengthFrameCodec_Encode frameLength buf =
     (if frameLength = 0 then Panic IntegerDivideByZero
      else if go_rem (int (length buf)) frameLength \<noteq> 0 then Err ErrInvalidFixedLength
      else Ok buf)"

definition FixedLengthFrameCodec_Decode ::
  "int \<Rightarrow> stdConn \<Rightarrow> byte list result \<times> stdConn" where
  "FixedLengthFrameCodec_Decode frameLength c =
     (let ((sz, buf), c1) = ReadN c frameLength
      in if sz = 0 then (Err ErrUnexpectedEOF, c1)
         else (let (n, c2) = ShiftN c1 sz in (Ok buf, c2)))"

subsection \<open>Length-field codec\<close>

text \<open>
  \<^verbatim>\<open>Encode\<close>: \<^verbatim>\<open>length\<close> (lines 161 to 164, \<open>length_field_value\<close>) is an \<^verbatim>\<open>int\<close>, so both
  additions wrap. \<^verbatim>\<open>byte(length)\<close>,
  \<^verbatim>\<open>uint16(length)\<close>, \<^verbatim>\<open>uint32(length)\<close> and \<^verbatim>\<open>uint64(length)\<close> keep the low bits. Cases 4
  and 8 of the switch have no range check.
\<close>

definition length_field_value :: "EncoderConfig \<Rightarrow> byte list \<Rightarrow> int" where
  "length_field_value ec buf =
     (let length0 = go_int (int (length buf) + enc_LengthAdjustment ec)
      in if enc_LengthIncludesLengthFieldLength ec
         then go_int (length0 + enc_LengthFieldLength ec) else length0)"

definition LengthFieldBasedFrameCodec_Encode ::
  "EncoderConfig \<Rightarrow> byte list \<Rightarrow> byte list result" where
  "LengthFieldBasedFrameCodec_Encode ec buf =
     (let len = length_field_value ec buf
      in if len < 0 then Err ErrTooLessLength
         else if enc_LengthFieldLength ec = 1 then
           (if len \<ge> 256 then Err (ErrLengthDoesNotFit ByteWidth len)
            else Ok ([word_of_int len] @ buf))
         else if enc_LengthFieldLength ec = 2 then
           (if len \<ge> 65536 then Err (ErrLengthDoesNotFit ShortInteger len)
            else Ok (PutUint16 (enc_ByteOrder ec) (word_of_int len) @ buf))
         else if enc_LengthFieldLength ec = 3 then
           (if len \<ge> 16777216 then Err (ErrLengthDoesNotFit MediumInteger len)
            else Ok (writeUint24 (enc_ByteOrder ec) len @ buf))
         else if enc_LengthFieldLength ec = 4 then
           Ok (PutUint32 (enc_ByteOrder ec) (word_of_int len) @ buf)
         else if enc_LengthFieldLength ec = 8 then
           Ok (PutUint64 (enc_ByteOrder ec) (word_of_int len) @ buf)
         else Err ErrUnsupportedLength)"

text \<open>
  \<^verbatim>\<open>innerBuffer.readN\<close>: the cursor over the peeked bytes. The result is the bytes read and
  the rest of the cursor.
\<close>

datatype readN_error = ZeroOrNegativeLength | ExceedingBufferLength

definition readN :: "byte list \<Rightarrow> int \<Rightarrow> readN_error + (byte list \<times> byte list)" where
  "readN inb n =
     (if n \<le> 0 then Inl ZeroOrNegativeLength
      else if n > int (length inb) then Inl ExceedingBufferLength
      else Inr (take (nat n) inb, drop (nat n) inb))"

text \<open>
  \<^verbatim>\<open>getUnadjustedFrameLength\<close>: the bytes of the length field, its value as a \<^verbatim>\<open>uint64\<close>, and
  the rest of the cursor.
\<close>

definition getUnadjustedFrameLength ::
  "DecoderConfig \<Rightarrow> byte list \<Rightarrow> (byte list \<times> 64 word \<times> byte list) result" where
  "getUnadjustedFrameLength dc inb =
     (if dec_LengthFieldLength dc = 1 then
        (case readN inb 1 of
           Inl e \<Rightarrow> Err ErrUnexpectedEOF
         | Inr (b, rest) \<Rightarrow>
             (if length b < 1 then Panic IndexOutOfRange else Ok (b, ucast (b ! 0), rest)))
      else if dec_LengthFieldLength dc = 2 then
        (case readN inb 2 of
           Inl e \<Rightarrow> Err ErrUnexpectedEOF
         | Inr (lenBuf, rest) \<Rightarrow>
             (case Uint16 (dec_ByteOrder dc) lenBuf of
                None \<Rightarrow> Panic IndexOutOfRange
              | Some v \<Rightarrow> Ok (lenBuf, ucast v, rest)))
      else if dec_LengthFieldLength dc = 3 then
        (case readN inb 3 of
           Inl e \<Rightarrow> Err ErrUnexpectedEOF
         | Inr (lenBuf, rest) \<Rightarrow>
             (case readUint24 (dec_ByteOrder dc) lenBuf of
                None \<Rightarrow> Panic IndexOutOfRange
              | Some v \<Rightarrow> Ok (lenBuf, v, rest)))
      else if dec_LengthFieldLength dc = 4 then
        (case readN inb 4 of
           Inl e \<Rightarrow> Err ErrUnexpectedEOF
         | Inr (lenBuf, rest) \<Rightarrow>
             (case Uint32 (dec_ByteOrder dc) lenBuf of
                None \<Rightarrow> Panic IndexOutOfRange
              | Some v \<Rightarrow> Ok (lenBuf, ucast v, rest)))
      else if dec_LengthFieldLength dc = 8 then
        (case readN inb 8 of
           Inl e \<Rightarrow> Err ErrUnexpectedEOF
         | Inr (lenBuf, rest) \<Rightarrow>
             (case Uint64 (dec_ByteOrder dc) lenBuf of
                None \<Rightarrow> Panic IndexOutOfRange
              | Some v \<Rightarrow> Ok (lenBuf, v, rest)))
      else Err ErrUnsupportedLength)"

text \<open>
  The built-in \<^verbatim>\<open>copy(dst, src)\<close> overwrites the first \<^verbatim>\<open>min(len(dst), len(src))\<close> bytes of
  \<open>dst\<close>; \<open>copy_from k dst src\<close> is \<^verbatim>\<open>copy(dst[k:], src)\<close> seen from \<open>dst\<close>.
\<close>

definition go_copy :: "byte list \<Rightarrow> byte list \<Rightarrow> byte list" where
  "go_copy dst src = take (length dst) src @ drop (length src) dst"

definition copy_from :: "nat \<Rightarrow> byte list \<Rightarrow> byte list \<Rightarrow> byte list" where
  "copy_from k dst src = take k dst @ go_copy (drop k dst) src"

text \<open>
  The first step of \<^verbatim>\<open>Decode\<close> (lines 222 to 227): with a positive offset the header bytes
  are read off the cursor and kept; otherwise \<^verbatim>\<open>header\<close> stays \<^verbatim>\<open>nil\<close>.
\<close>

definition discard_header ::
  "DecoderConfig \<Rightarrow> byte list \<Rightarrow> (byte list \<times> byte list) result" where
  "discard_header dc inb =
     (if dec_LengthFieldOffset dc > 0 then
        (case readN inb (dec_LengthFieldOffset dc) of
           Inl e \<Rightarrow> Err ErrUnexpectedEOF
         | Inr (header, rest) \<Rightarrow> Ok (header, rest))
      else Ok ([], inb))"

text \<open>The real message length (line 235): \<^verbatim>\<open>int(frameLength) + LengthAdjustment\<close>.\<close>

definition msgLength_of :: "DecoderConfig \<Rightarrow> 64 word \<Rightarrow> int" where
  "msgLength_of dc frameLength = go_int (sint frameLength + dec_LengthAdjustment dc)"

text \<open>
  \<^verbatim>\<open>Decode\<close>. The final slice expression \<^verbatim>\<open>fullMessage[InitialBytesToStrip:]\<close> panics when
  the index is negative or beyond the length; it is evaluated after \<^verbatim>\<open>ShiftN\<close>.
\<close>

definition LengthFieldBasedFrameCodec_Decode ::
  "DecoderConfig \<Rightarrow> stdConn \<Rightarrow> byte list result \<times> stdConn" where
  "LengthFieldBasedFrameCodec_Decode dc c =
     (let (in0, c1) = Read c
      in case discard_header dc in0 of
           Err e \<Rightarrow> (Err e, c1)
         | Panic p \<Rightarrow> (Panic p, c1)
         | Ok (header, in1) \<Rightarrow>
             (case getUnadjustedFrameLength dc in1 of
                Err e \<Rightarrow> (Err e, c1)
              | Panic p \<Rightarrow> (Panic p, c1)
              | Ok (lenBuf, frameLength, in2) \<Rightarrow>
                  (let msgLength = msgLength_of dc frameLength
                   in case readN in2 msgLength of
                        Inl e \<Rightarrow> (Err ErrUnexpectedEOF, c1)
                      | Inr (msg, in3) \<Rightarrow>
                          (let made = replicate
                                 (nat (int (length header) + int (length lenBuf) + msgLength)) 0;
                               fullMessage =
                                 copy_from (length header + length lenBuf)
                                   (copy_from (length header) (go_copy made header) lenBuf) msg;
                               (n, c2) = ShiftN c1 (int (length fullMessage))
                           in if dec_InitialBytesToStrip dc < 0
                                 \<or> int (length fullMessage) < dec_InitialBytesToStrip dc
                              then (Panic SliceBoundsOutOfRange, c2)
                              else (Ok (drop (nat (dec_InitialBytesToStrip dc)) fullMessage),
                                    c2)))))"

subsection \<open>The interface\<close>

fun Encode :: "ICodec \<Rightarrow> byte list \<Rightarrow> byte list result" where
  "Encode BuiltInFrameCodec buf = BuiltInFrameCodec_Encode buf"
| "Encode LineBasedFrameCodec buf = LineBasedFrameCodec_Encode buf"
| "Encode (DelimiterBasedFrameCodec delimiter) buf =
     DelimiterBasedFrameCodec_Encode delimiter buf"
| "Encode (FixedLengthFrameCodec frameLength) buf =
     FixedLengthFrameCodec_Encode frameLength buf"
| "Encode (LengthFieldBasedFrameCodec ec dc) buf = LengthFieldBasedFrameCodec_Encode ec buf"

fun Decode :: "ICodec \<Rightarrow> stdConn \<Rightarrow> byte list result \<times> stdConn" where
  "Decode BuiltInFrameCodec c = BuiltInFrameCodec_Decode c"
| "Decode LineBasedFrameCodec c = LineBasedFrameCodec_Decode c"
| "Decode (DelimiterBasedFrameCodec delimiter) c = DelimiterBasedFrameCodec_Decode delimiter c"
| "Decode (FixedLengthFrameCodec frameLength) c = FixedLengthFrameCodec_Decode frameLength c"
| "Decode (LengthFieldBasedFrameCodec ec dc) c = LengthFieldBasedFrameCodec_Decode dc c"

section \<open>Notions of the specification used in the statements\<close>

text \<open>The index of the first occurrence of a byte in a byte string that holds it.\<close>

definition first_index :: "byte list \<Rightarrow> byte \<Rightarrow> nat" where
  "first_index b t = length (takeWhile (\<lambda>x. x \<noteq> t) b)"

text \<open>
  The spec's step 1 of the encoder: the length \<open>L\<close> that the length field is to hold, the frame
  length plus the adjustment, plus the width of the field when the config says that the
  length includes it. Here \<open>L\<close> is the number itself, before any machine wrap-around.
\<close>

definition spec_length_field :: "EncoderConfig \<Rightarrow> byte list \<Rightarrow> int" where
  "spec_length_field ec f =
     int (length f) + enc_LengthAdjustment ec
       + (if enc_LengthIncludesLengthFieldLength ec then enc_LengthFieldLength ec else 0)"

text \<open>
  The spec's step 4 of the encoder: \<open>L\<close> serialised into exactly \<open>k\<close> bytes in the configured
  endianness, least significant byte first under little-endian and most significant byte
  first under big-endian.
\<close>

fun le_bytes :: "nat \<Rightarrow> int \<Rightarrow> byte list" where
  "le_bytes 0 v = []"
| "le_bytes (Suc k) v = word_of_int v # le_bytes k (drop_bit 8 v)"

definition spec_serialise :: "ByteOrder \<Rightarrow> nat \<Rightarrow> int \<Rightarrow> byte list" where
  "spec_serialise bo k v =
     (case bo of LittleEndian \<Rightarrow> le_bytes k v | BigEndian \<Rightarrow> rev (le_bytes k v))"

text \<open>The unsigned number that a length field holds, read in the configured endianness.\<close>

fun le_value :: "byte list \<Rightarrow> int" where
  "le_value [] = 0"
| "le_value (b # bs) = uint b + 256 * le_value bs"

definition spec_field_value :: "ByteOrder \<Rightarrow> byte list \<Rightarrow> int" where
  "spec_field_value bo bs =
     (case bo of LittleEndian \<Rightarrow> le_value bs | BigEndian \<Rightarrow> le_value (rev bs))"

text \<open>
  A connection whose ring holds the runs \<open>h\<close> and \<open>t\<close> and whose scratch buffer holds \<open>b\<close>,
  with no join buffer cached: the states at which the statements below are instantiated.
\<close>

definition conn_of :: "byte list \<Rightarrow> byte list \<Rightarrow> byte list \<Rightarrow> stdConn" where
  "conn_of h t b =
     \<lparr>buffer = b, byteBuffer = None, inboundBuffer = \<lparr>head_slice = h, tail_slice = t\<rparr>\<rparr>"

section \<open>The ring and the connection buffers\<close>

lemma RingBuffer_Length_bytes: "RingBuffer_Length rb = int (length (RingBuffer_bytes rb))"
  by (simp add: RingBuffer_Length_def RingBuffer_bytes_def)

lemma RingBuffer_IsEmpty_bytes: "RingBuffer_IsEmpty rb \<longleftrightarrow> RingBuffer_bytes rb = []"
  by (simp add: RingBuffer_IsEmpty_def RingBuffer_Length_bytes)

lemma RingBuffer_LazyRead_bytes:
  "RingBuffer_LazyRead rb n = (h, t) \<Longrightarrow> h @ t = take (nat n) (RingBuffer_bytes rb)"
  by (auto simp add: RingBuffer_LazyRead_def RingBuffer_bytes_def)

lemma RingBuffer_Shift_bytes:
  "RingBuffer_bytes (RingBuffer_Shift rb n) = drop (nat n) (RingBuffer_bytes rb)"
  by (simp add: RingBuffer_bytes_def RingBuffer_Shift_def)

lemma RingBuffer_Reset_bytes: "RingBuffer_bytes (RingBuffer_Reset rb) = []"
  by (simp add: RingBuffer_bytes_def RingBuffer_Reset_def)

lemma RingBuffer_WithByteBuffer_bytes:
  "RingBuffer_WithByteBuffer rb b = RingBuffer_bytes rb @ b"
  by (simp add: RingBuffer_bytes_def RingBuffer_WithByteBuffer_def)

lemmas ring_simps = RingBuffer_Length_bytes RingBuffer_IsEmpty_bytes RingBuffer_Shift_bytes
  RingBuffer_Reset_bytes RingBuffer_WithByteBuffer_bytes

lemma nat_minus_int: "nat (n - int k) = nat n - k"
  by arith

lemma BufferLength_conn_bytes: "BufferLength c = int (length (conn_bytes c))"
  by (simp add: BufferLength_def conn_bytes_def ring_simps)

lemma Read_fst: "fst (Read c) = conn_bytes c"
  by (simp add: Read_def conn_bytes_def ring_simps Let_def)

lemma Read_snd_buffers:
  "buffer (snd (Read c)) = buffer c \<and> inboundBuffer (snd (Read c)) = inboundBuffer c"
  by (simp add: Read_def Let_def)

lemma Read_snd_bytes: "conn_bytes (snd (Read c)) = conn_bytes c"
  by (simp add: conn_bytes_def Read_snd_buffers)

lemma Read_snd_length: "BufferLength (snd (Read c)) = BufferLength c"
  by (simp add: BufferLength_def Read_snd_buffers)

lemma ReadN_buffers:
  "buffer (snd (ReadN c n)) = buffer c \<and> inboundBuffer (snd (ReadN c n)) = inboundBuffer c"
  by (simp add: ReadN_def Let_def split: prod.splits)

lemma ReadN_snd_bytes: "conn_bytes (snd (ReadN c n)) = conn_bytes c"
  by (simp add: conn_bytes_def ReadN_buffers)

lemma ReadN_snd_length: "BufferLength (snd (ReadN c n)) = BufferLength c"
  by (simp add: BufferLength_def ReadN_buffers)

lemma ReadN_size:
  "fst (fst (ReadN c n)) = (if BufferLength c < n \<or> n \<le> 0 then BufferLength c else n)"
  by (simp add: ReadN_def BufferLength_def Let_def split: prod.splits)

lemma ReadN_bytes:
  "snd (fst (ReadN c n)) = take (nat (fst (fst (ReadN c n)))) (conn_bytes c)"
  by (auto simp add: ReadN_def Let_def conn_bytes_def ring_simps nat_minus_int
      dest!: RingBuffer_LazyRead_bytes split: prod.splits)

lemma ResetBuffer_bytes:
  "buffer (ResetBuffer c) = []"
  "RingBuffer_bytes (inboundBuffer (ResetBuffer c)) = []"
  "conn_bytes (ResetBuffer c) = []"
  "BufferLength (ResetBuffer c) = 0"
  by (simp_all add: ResetBuffer_def conn_bytes_def BufferLength_def ring_simps)

lemma ShiftN_reset:
  assumes "n \<le> 0 \<or> BufferLength c < n"
  shows "ShiftN c n = (BufferLength c, ResetBuffer c)"
  using assms by (auto simp add: ShiftN_def BufferLength_def Let_def)

lemma ShiftN_advance:
  assumes "0 < n" "n \<le> BufferLength c"
  shows "fst (ShiftN c n) = n"
    and "RingBuffer_bytes (inboundBuffer (snd (ShiftN c n)))
           = drop (nat (min n (RingBuffer_Length (inboundBuffer c))))
               (RingBuffer_bytes (inboundBuffer c))"
    and "buffer (snd (ShiftN c n))
           = drop (nat (n - min n (RingBuffer_Length (inboundBuffer c)))) (buffer c)"
  using assms
  by (auto simp add: ShiftN_def BufferLength_def Let_def ring_simps min_def)

lemma ShiftN_conn_bytes:
  assumes "0 < n" "n \<le> BufferLength c"
  shows "conn_bytes (snd (ShiftN c n)) = drop (nat n) (conn_bytes c)"
  using assms
  by (auto simp add: ShiftN_def BufferLength_def Let_def ring_simps conn_bytes_def nat_minus_int)

text \<open>
  C4 (\<^verbatim>\<open>consume_n\<close> is \<^verbatim>\<open>ShiftN\<close>, \<^verbatim>\<open>len\<close> is \<^verbatim>\<open>BufferLength\<close>). For every connection state
  and every integer \<open>n\<close>: when \<open>0 < n \<le> len\<close>, \<^verbatim>\<open>ShiftN\<close> returns \<open>n\<close>, drops
  \<open>min(n, ring.len)\<close> bytes from the head of the ring and the remaining
  \<open>n - min(n, ring.len)\<close> from the head of the scratch buffer, so that exactly the first \<open>n\<close>
  logical bytes are gone and \<^verbatim>\<open>len\<close> is the prior \<^verbatim>\<open>len\<close> minus \<open>n\<close>; when \<open>n \<le> 0\<close> or
  \<open>n > len\<close> it empties both buffers, returns the prior total and leaves \<^verbatim>\<open>len\<close> at 0.
\<close>

theorem ShiftN_consumes:
  "BufferLength c = RingBuffer_Length (inboundBuffer c) + int (length (buffer c))
   \<and> (0 < n \<and> n \<le> BufferLength c \<longrightarrow>
        fst (ShiftN c n) = n
        \<and> RingBuffer_bytes (inboundBuffer (snd (ShiftN c n)))
            = drop (nat (min n (RingBuffer_Length (inboundBuffer c))))
                (RingBuffer_bytes (inboundBuffer c))
        \<and> buffer (snd (ShiftN c n))
            = drop (nat (n - min n (RingBuffer_Length (inboundBuffer c)))) (buffer c)
        \<and> conn_bytes (snd (ShiftN c n)) = drop (nat n) (conn_bytes c)
        \<and> BufferLength (snd (ShiftN c n)) = BufferLength c - n)
   \<and> (n \<le> 0 \<or> BufferLength c < n \<longrightarrow>
        fst (ShiftN c n) = BufferLength c
        \<and> RingBuffer_bytes (inboundBuffer (snd (ShiftN c n))) = []
        \<and> buffer (snd (ShiftN c n)) = []
        \<and> conn_bytes (snd (ShiftN c n)) = []
        \<and> BufferLength (snd (ShiftN c n)) = 0)"
proof (intro conjI impI)
  show "BufferLength c = RingBuffer_Length (inboundBuffer c) + int (length (buffer c))"
    by (simp add: BufferLength_def)
next
  assume h: "0 < n \<and> n \<le> BufferLength c"
  then have pos: "0 < n" and le: "n \<le> BufferLength c" by simp_all
  show "fst (ShiftN c n) = n"
    using pos le by (rule ShiftN_advance(1))
  show "RingBuffer_bytes (inboundBuffer (snd (ShiftN c n)))
          = drop (nat (min n (RingBuffer_Length (inboundBuffer c))))
              (RingBuffer_bytes (inboundBuffer c))"
    using pos le by (rule ShiftN_advance(2))
  show "buffer (snd (ShiftN c n))
          = drop (nat (n - min n (RingBuffer_Length (inboundBuffer c)))) (buffer c)"
    using pos le by (rule ShiftN_advance(3))
  show bytes: "conn_bytes (snd (ShiftN c n)) = drop (nat n) (conn_bytes c)"
    using pos le by (rule ShiftN_conn_bytes)
  show "BufferLength (snd (ShiftN c n)) = BufferLength c - n"
    using pos le by (simp add: BufferLength_conn_bytes bytes)
next
  assume h: "n \<le> 0 \<or> BufferLength c < n"
  have eq: "ShiftN c n = (BufferLength c, ResetBuffer c)"
    using h by (rule ShiftN_reset)
  show "fst (ShiftN c n) = BufferLength c" by (simp add: eq)
  show "RingBuffer_bytes (inboundBuffer (snd (ShiftN c n))) = []"
    by (simp add: eq ResetBuffer_bytes)
  show "buffer (snd (ShiftN c n)) = []" by (simp add: eq ResetBuffer_bytes)
  show "conn_bytes (snd (ShiftN c n)) = []" by (simp add: eq ResetBuffer_bytes)
  show "BufferLength (snd (ShiftN c n)) = 0" by (simp add: eq ResetBuffer_bytes)
qed

theorem ShiftN_consumes_witness:
  "fst (ShiftN (conn_of [1] [2] [3, 4, 5]) 3) = 3
   \<and> RingBuffer_bytes (inboundBuffer (snd (ShiftN (conn_of [1] [2] [3, 4, 5]) 3))) = []
   \<and> buffer (snd (ShiftN (conn_of [1] [2] [3, 4, 5]) 3)) = [4, 5]
   \<and> BufferLength (snd (ShiftN (conn_of [1] [2] [3, 4, 5]) 3)) = 2
   \<and> fst (ShiftN (conn_of [1] [2] [3, 4, 5]) 9) = 5
   \<and> BufferLength (snd (ShiftN (conn_of [1] [2] [3, 4, 5]) 9)) = 0"
proof -
  have len: "BufferLength (conn_of [1] [2] [3, 4, 5]) = 5"
    by (simp add: BufferLength_def RingBuffer_Length_def conn_of_def)
  have h1: "0 < (3::int) \<and> 3 \<le> BufferLength (conn_of [1] [2] [3, 4, 5])"
    by (simp add: len)
  have h2: "(9::int) \<le> 0 \<or> BufferLength (conn_of [1] [2] [3, 4, 5]) < 9"
    by (simp add: len)
  show ?thesis
    using ShiftN_consumes [of "conn_of [1] [2] [3, 4, 5]" 3]
      ShiftN_consumes [of "conn_of [1] [2] [3, 4, 5]" 9] h1 h2
    by (simp add: len RingBuffer_Length_def RingBuffer_bytes_def conn_of_def)
qed

text \<open>
  C5 (\<^verbatim>\<open>peek_n\<close> is \<^verbatim>\<open>ReadN\<close>, \<^verbatim>\<open>peek_all\<close> is \<^verbatim>\<open>Read\<close>). For every connection state and every
  integer \<open>n\<close>, \<^verbatim>\<open>ReadN\<close> returns \<open>available = min(n, total_len)\<close> and the first \<open>available\<close>
  buffered bytes in order, except that for \<open>n \<le> 0\<close> (as for \<open>n > total_len\<close>) it returns all
  buffered bytes with \<open>available = total_len\<close>: the second clause of the claim is the one
  that governs \<open>n \<le> 0\<close>. Neither \<^verbatim>\<open>ReadN\<close> nor \<^verbatim>\<open>Read\<close> changes the ring, the scratch buffer,
  the logical contents or \<^verbatim>\<open>len\<close>; the only field they write is the cached join buffer.
\<close>

theorem ReadN_Read_peek:
  "fst (fst (ReadN c n))
     = (if n \<le> 0 \<or> BufferLength c < n then BufferLength c else min n (BufferLength c))
   \<and> snd (fst (ReadN c n))
     = (if n \<le> 0 \<or> BufferLength c < n then conn_bytes c else take (nat n) (conn_bytes c))
   \<and> snd (fst (ReadN c n)) = take (nat (fst (fst (ReadN c n)))) (conn_bytes c)
   \<and> BufferLength c = int (length (conn_bytes c))
   \<and> buffer (snd (ReadN c n)) = buffer c
   \<and> inboundBuffer (snd (ReadN c n)) = inboundBuffer c
   \<and> conn_bytes (snd (ReadN c n)) = conn_bytes c
   \<and> BufferLength (snd (ReadN c n)) = BufferLength c
   \<and> fst (Read c) = conn_bytes c
   \<and> buffer (snd (Read c)) = buffer c
   \<and> inboundBuffer (snd (Read c)) = inboundBuffer c
   \<and> conn_bytes (snd (Read c)) = conn_bytes c
   \<and> BufferLength (snd (Read c)) = BufferLength c"
proof -
  have sz: "fst (fst (ReadN c n))
      = (if n \<le> 0 \<or> BufferLength c < n then BufferLength c else min n (BufferLength c))"
    by (auto simp add: ReadN_size)
  have bs: "snd (fst (ReadN c n)) = take (nat (fst (fst (ReadN c n)))) (conn_bytes c)"
    by (rule ReadN_bytes)
  have all: "snd (fst (ReadN c n))
      = (if n \<le> 0 \<or> BufferLength c < n then conn_bytes c else take (nat n) (conn_bytes c))"
    by (subst bs) (auto simp add: ReadN_size BufferLength_conn_bytes)
  show ?thesis
    using sz all bs
    by (simp add: BufferLength_conn_bytes [symmetric] ReadN_buffers ReadN_snd_bytes
        ReadN_snd_length Read_fst Read_snd_buffers Read_snd_bytes Read_snd_length)
qed

section \<open>Line-terminated and delimiter codecs\<close>

lemma IndexByte_absent: "t \<notin> set b \<Longrightarrow> IndexByte b t = -1"
  by (induction b) (auto simp add: Let_def)

lemma IndexByte_present: "t \<in> set b \<Longrightarrow> IndexByte b t = int (first_index b t)"
  by (induction b) (auto simp add: Let_def first_index_def)

lemma first_index_less: "t \<in> set b \<Longrightarrow> first_index b t < length b"
  unfolding first_index_def by (induction b) auto

lemma first_index_nth: "t \<in> set b \<Longrightarrow> b ! first_index b t = t"
  unfolding first_index_def by (induction b) auto

lemma first_index_before: "t \<notin> set (take (first_index b t) b)"
  using set_takeWhileD [of t "\<lambda>x. x \<noteq> t" b]
  by (auto simp add: first_index_def takeWhile_eq_take [symmetric])

lemma DelimiterBased_Decode_absent:
  assumes "t \<notin> set (conn_bytes c)"
  shows "fst (DelimiterBasedFrameCodec_Decode t c) = Err ErrDelimiterNotFound"
    and "conn_bytes (snd (DelimiterBasedFrameCodec_Decode t c)) = conn_bytes c"
  using assms
  by (simp_all add: DelimiterBasedFrameCodec_Decode_def Let_def split_beta Read_fst
      IndexByte_absent Read_snd_bytes)

lemma DelimiterBased_Decode_present:
  assumes "t \<in> set (conn_bytes c)"
  shows "fst (DelimiterBasedFrameCodec_Decode t c)
           = Ok (take (first_index (conn_bytes c) t) (conn_bytes c))"
    and "conn_bytes (snd (DelimiterBasedFrameCodec_Decode t c))
           = drop (first_index (conn_bytes c) t + 1) (conn_bytes c)"
proof -
  let ?b = "conn_bytes c" and ?c1 = "snd (Read c)"
  have idx: "IndexByte ?b t = int (first_index ?b t)" using assms by (rule IndexByte_present)
  have le: "int (first_index ?b t) + 1 \<le> BufferLength ?c1"
    using first_index_less [OF assms] by (simp add: BufferLength_conn_bytes Read_snd_bytes)
  have pos: "0 < int (first_index ?b t) + 1" by simp
  have sh: "conn_bytes (snd (ShiftN ?c1 (int (first_index ?b t) + 1)))
      = drop (first_index ?b t + 1) ?b"
    using ShiftN_conn_bytes [OF pos le] by (simp add: Read_snd_bytes nat_add_distrib)
  show "fst (DelimiterBasedFrameCodec_Decode t c) = Ok (take (first_index ?b t) ?b)"
    by (simp add: DelimiterBasedFrameCodec_Decode_def Let_def split_beta Read_fst idx)
  show "conn_bytes (snd (DelimiterBasedFrameCodec_Decode t c)) = drop (first_index ?b t + 1) ?b"
    using sh by (simp add: DelimiterBasedFrameCodec_Decode_def Let_def split_beta Read_fst idx)
qed

lemma LineBased_Decode_absent:
  assumes "CRLFByte \<notin> set (conn_bytes c)"
  shows "fst (LineBasedFrameCodec_Decode c) = Err ErrCRLFNotFound"
    and "conn_bytes (snd (LineBasedFrameCodec_Decode c)) = conn_bytes c"
  using assms
  by (simp_all add: LineBasedFrameCodec_Decode_def Let_def split_beta Read_fst
      IndexByte_absent Read_snd_bytes)

lemma LineBased_Decode_present:
  assumes "CRLFByte \<in> set (conn_bytes c)"
  shows "fst (LineBasedFrameCodec_Decode c)
           = Ok (take (first_index (conn_bytes c) CRLFByte) (conn_bytes c))"
    and "conn_bytes (snd (LineBasedFrameCodec_Decode c))
           = drop (first_index (conn_bytes c) CRLFByte + 1) (conn_bytes c)"
proof -
  let ?b = "conn_bytes c" and ?c1 = "snd (Read c)" and ?t = CRLFByte
  have idx: "IndexByte ?b ?t = int (first_index ?b ?t)" using assms by (rule IndexByte_present)
  have le: "int (first_index ?b ?t) + 1 \<le> BufferLength ?c1"
    using first_index_less [OF assms] by (simp add: BufferLength_conn_bytes Read_snd_bytes)
  have pos: "0 < int (first_index ?b ?t) + 1" by simp
  have sh: "conn_bytes (snd (ShiftN ?c1 (int (first_index ?b ?t) + 1)))
      = drop (first_index ?b ?t + 1) ?b"
    using ShiftN_conn_bytes [OF pos le] by (simp add: Read_snd_bytes nat_add_distrib)
  show "fst (LineBasedFrameCodec_Decode c) = Ok (take (first_index ?b ?t) ?b)"
    by (simp add: LineBasedFrameCodec_Decode_def Let_def split_beta Read_fst idx)
  show "conn_bytes (snd (LineBasedFrameCodec_Decode c)) = drop (first_index ?b ?t + 1) ?b"
    using sh by (simp add: LineBasedFrameCodec_Decode_def Let_def split_beta Read_fst idx)
qed

text \<open>
  C7. For the delimiter codec with terminator \<open>t\<close> and for the line codec (terminator
  \<open>CRLFByte\<close>, the newline byte 10), and for every buffer contents \<open>b\<close>: if the terminator does
  not occur in \<open>b\<close>, \<^verbatim>\<open>Decode\<close> fails with the codec's not-found error and the buffer contents
  and length are as before; otherwise, with \<open>idx\<close> the index of the first occurrence (the
  byte at \<open>idx\<close> is the terminator and no byte before it is), \<^verbatim>\<open>Decode\<close> returns \<open>b[0..idx)\<close>
  and consumes exactly \<open>idx + 1\<close> bytes.
\<close>

theorem terminator_Decode:
  "(t \<notin> set (conn_bytes c) \<longrightarrow>
      fst (Decode (DelimiterBasedFrameCodec t) c) = Err ErrDelimiterNotFound
      \<and> conn_bytes (snd (Decode (DelimiterBasedFrameCodec t) c)) = conn_bytes c
      \<and> BufferLength (snd (Decode (DelimiterBasedFrameCodec t) c)) = BufferLength c)
   \<and> (t \<in> set (conn_bytes c) \<longrightarrow>
      first_index (conn_bytes c) t < length (conn_bytes c)
      \<and> conn_bytes c ! first_index (conn_bytes c) t = t
      \<and> t \<notin> set (take (first_index (conn_bytes c) t) (conn_bytes c))
      \<and> fst (Decode (DelimiterBasedFrameCodec t) c)
          = Ok (take (first_index (conn_bytes c) t) (conn_bytes c))
      \<and> conn_bytes (snd (Decode (DelimiterBasedFrameCodec t) c))
          = drop (first_index (conn_bytes c) t + 1) (conn_bytes c)
      \<and> BufferLength (snd (Decode (DelimiterBasedFrameCodec t) c))
          = BufferLength c - (int (first_index (conn_bytes c) t) + 1))
   \<and> CRLFByte = 10
   \<and> (CRLFByte \<notin> set (conn_bytes c) \<longrightarrow>
      fst (Decode LineBasedFrameCodec c) = Err ErrCRLFNotFound
      \<and> conn_bytes (snd (Decode LineBasedFrameCodec c)) = conn_bytes c
      \<and> BufferLength (snd (Decode LineBasedFrameCodec c)) = BufferLength c)
   \<and> (CRLFByte \<in> set (conn_bytes c) \<longrightarrow>
      first_index (conn_bytes c) CRLFByte < length (conn_bytes c)
      \<and> conn_bytes c ! first_index (conn_bytes c) CRLFByte = CRLFByte
      \<and> CRLFByte \<notin> set (take (first_index (conn_bytes c) CRLFByte) (conn_bytes c))
      \<and> fst (Decode LineBasedFrameCodec c)
          = Ok (take (first_index (conn_bytes c) CRLFByte) (conn_bytes c))
      \<and> conn_bytes (snd (Decode LineBasedFrameCodec c))
          = drop (first_index (conn_bytes c) CRLFByte + 1) (conn_bytes c)
      \<and> BufferLength (snd (Decode LineBasedFrameCodec c))
          = BufferLength c - (int (first_index (conn_bytes c) CRLFByte) + 1))"
proof (intro conjI impI)
  show "CRLFByte = 10" by (simp add: CRLFByte_def)
next
  assume "t \<notin> set (conn_bytes c)"
  then show "fst (Decode (DelimiterBasedFrameCodec t) c) = Err ErrDelimiterNotFound"
    and same: "conn_bytes (snd (Decode (DelimiterBasedFrameCodec t) c)) = conn_bytes c"
    by (simp_all add: DelimiterBased_Decode_absent)
  show "BufferLength (snd (Decode (DelimiterBasedFrameCodec t) c)) = BufferLength c"
    by (simp only: BufferLength_conn_bytes same)
next
  assume "CRLFByte \<notin> set (conn_bytes c)"
  then show "fst (Decode LineBasedFrameCodec c) = Err ErrCRLFNotFound"
    and same: "conn_bytes (snd (Decode LineBasedFrameCodec c)) = conn_bytes c"
    by (simp_all add: LineBased_Decode_absent)
  show "BufferLength (snd (Decode LineBasedFrameCodec c)) = BufferLength c"
    by (simp only: BufferLength_conn_bytes same)
next
  assume h: "t \<in> set (conn_bytes c)"
  show less: "first_index (conn_bytes c) t < length (conn_bytes c)"
    using h by (rule first_index_less)
  show "conn_bytes c ! first_index (conn_bytes c) t = t"
    using h by (rule first_index_nth)
  show "t \<notin> set (take (first_index (conn_bytes c) t) (conn_bytes c))"
    by (rule first_index_before)
  show "fst (Decode (DelimiterBasedFrameCodec t) c)
          = Ok (take (first_index (conn_bytes c) t) (conn_bytes c))"
    using h by (simp add: DelimiterBased_Decode_present)
  show rest: "conn_bytes (snd (Decode (DelimiterBasedFrameCodec t) c))
          = drop (first_index (conn_bytes c) t + 1) (conn_bytes c)"
    using h by (simp add: DelimiterBased_Decode_present)
  show "BufferLength (snd (Decode (DelimiterBasedFrameCodec t) c))
          = BufferLength c - (int (first_index (conn_bytes c) t) + 1)"
    using less by (simp only: BufferLength_conn_bytes rest) simp
next
  assume h: "CRLFByte \<in> set (conn_bytes c)"
  show less: "first_index (conn_bytes c) CRLFByte < length (conn_bytes c)"
    using h by (rule first_index_less)
  show "conn_bytes c ! first_index (conn_bytes c) CRLFByte = CRLFByte"
    using h by (rule first_index_nth)
  show "CRLFByte \<notin> set (take (first_index (conn_bytes c) CRLFByte) (conn_bytes c))"
    by (rule first_index_before)
  show "fst (Decode LineBasedFrameCodec c)
          = Ok (take (first_index (conn_bytes c) CRLFByte) (conn_bytes c))"
    using h by (simp add: LineBased_Decode_present)
  show rest: "conn_bytes (snd (Decode LineBasedFrameCodec c))
          = drop (first_index (conn_bytes c) CRLFByte + 1) (conn_bytes c)"
    using h by (simp add: LineBased_Decode_present)
  show "BufferLength (snd (Decode LineBasedFrameCodec c))
          = BufferLength c - (int (first_index (conn_bytes c) CRLFByte) + 1)"
    using less by (simp only: BufferLength_conn_bytes rest) simp
qed

theorem terminator_Decode_witness:
  "fst (Decode (DelimiterBasedFrameCodec 0) (conn_of [] [] [102, 111, 111, 0, 98, 97, 114, 0]))
     = Ok [102, 111, 111]
   \<and> conn_bytes (snd (Decode (DelimiterBasedFrameCodec 0)
        (conn_of [] [] [102, 111, 111, 0, 98, 97, 114, 0]))) = [98, 97, 114, 0]
   \<and> fst (Decode (DelimiterBasedFrameCodec 0) (conn_of [] [] [102, 111, 111]))
     = Err ErrDelimiterNotFound
   \<and> conn_bytes (snd (Decode (DelimiterBasedFrameCodec 0) (conn_of [] [] [102, 111, 111])))
     = [102, 111, 111]
   \<and> fst (Decode LineBasedFrameCodec (conn_of [104, 101] [108] [108, 111, 10, 119, 111, 114]))
     = Ok [104, 101, 108, 108, 111]
   \<and> conn_bytes (snd (Decode LineBasedFrameCodec
        (conn_of [104, 101] [108] [108, 111, 10, 119, 111, 114]))) = [119, 111, 114]
   \<and> fst (Decode LineBasedFrameCodec (conn_of [] [] [119, 111, 114])) = Err ErrCRLFNotFound
   \<and> conn_bytes (snd (Decode LineBasedFrameCodec (conn_of [] [] [119, 111, 114])))
     = [119, 111, 114]"
proof -
  have b1: "conn_bytes (conn_of [] [] [102, 111, 111, 0, 98, 97, 114, 0])
      = [102, 111, 111, 0, 98, 97, 114, 0]"
    by (simp add: conn_bytes_def conn_of_def RingBuffer_bytes_def)
  have b2: "conn_bytes (conn_of [] [] [102, 111, 111]) = [102, 111, 111]"
    by (simp add: conn_bytes_def conn_of_def RingBuffer_bytes_def)
  have b3: "conn_bytes (conn_of [104, 101] [108] [108, 111, 10, 119, 111, 114])
      = [104, 101, 108, 108, 111, 10, 119, 111, 114]"
    by (simp add: conn_bytes_def conn_of_def RingBuffer_bytes_def)
  have b4: "conn_bytes (conn_of [] [] [119, 111, 114]) = [119, 111, 114]"
    by (simp add: conn_bytes_def conn_of_def RingBuffer_bytes_def)
  have m1: "(0::byte) \<in> set (conn_bytes (conn_of [] [] [102, 111, 111, 0, 98, 97, 114, 0]))"
    by (simp add: b1)
  have m2: "(0::byte) \<notin> set (conn_bytes (conn_of [] [] [102, 111, 111]))"
    by (simp add: b2)
  have m3: "CRLFByte \<in> set (conn_bytes (conn_of [104, 101] [108] [108, 111, 10, 119, 111, 114]))"
    by (simp add: b3 CRLFByte_def)
  have m4: "CRLFByte \<notin> set (conn_bytes (conn_of [] [] [119, 111, 114]))"
    by (simp add: b4 CRLFByte_def)
  have i1: "first_index [102, 111, 111, 0, 98, 97, 114, 0] (0::byte) = 3"
    by (simp add: first_index_def)
  have i3: "first_index [104, 101, 108, 108, 111, 10, 119, 111, 114] CRLFByte = 5"
    by (simp add: first_index_def CRLFByte_def)
  note t1 = terminator_Decode [where t = 0 and c = "conn_of [] [] [102, 111, 111, 0, 98, 97, 114, 0]"]
  note t2 = terminator_Decode [where t = 0 and c = "conn_of [] [] [102, 111, 111]"]
  note t3 = terminator_Decode [where c = "conn_of [104, 101] [108] [108, 111, 10, 119, 111, 114]"]
  note t4 = terminator_Decode [where c = "conn_of [] [] [119, 111, 114]"]
  from t1 m1 have r1: "fst (Decode (DelimiterBasedFrameCodec 0) (conn_of [] [] [102, 111, 111, 0, 98, 97, 114, 0]))
     = Ok [102, 111, 111]
   \<and> conn_bytes (snd (Decode (DelimiterBasedFrameCodec 0)
        (conn_of [] [] [102, 111, 111, 0, 98, 97, 114, 0]))) = [98, 97, 114, 0]"
    by (simp add: b1 i1)
  from t2 m2 have r2: "fst (Decode (DelimiterBasedFrameCodec 0) (conn_of [] [] [102, 111, 111]))
     = Err ErrDelimiterNotFound
   \<and> conn_bytes (snd (Decode (DelimiterBasedFrameCodec 0) (conn_of [] [] [102, 111, 111])))
     = [102, 111, 111]"
    by (simp add: b2)
  from t3 m3 have r3: "fst (Decode LineBasedFrameCodec (conn_of [104, 101] [108] [108, 111, 10, 119, 111, 114]))
     = Ok [104, 101, 108, 108, 111]
   \<and> conn_bytes (snd (Decode LineBasedFrameCodec
        (conn_of [104, 101] [108] [108, 111, 10, 119, 111, 114]))) = [119, 111, 114]"
    by (simp add: b3 i3)
  from t4 m4 have r4: "fst (Decode LineBasedFrameCodec (conn_of [] [] [119, 111, 114])) = Err ErrCRLFNotFound
   \<and> conn_bytes (snd (Decode LineBasedFrameCodec (conn_of [] [] [119, 111, 114])))
     = [119, 111, 114]"
    by (simp add: b4)
  from r1 r2 r3 r4 show ?thesis by simp
qed

section \<open>Fixed-length codec\<close>

lemma FixedLength_Decode_empty:
  assumes "BufferLength c = 0"
  shows "fst (FixedLengthFrameCodec_Decode L c) = Err ErrUnexpectedEOF"
    and "conn_bytes (snd (FixedLengthFrameCodec_Decode L c)) = conn_bytes c"
  using assms
  by (simp_all add: FixedLengthFrameCodec_Decode_def split_beta ReadN_size ReadN_snd_bytes)

lemma FixedLength_Decode_nonempty:
  fixes c :: stdConn and L :: int
  assumes "BufferLength c \<noteq> 0"
  defines "k \<equiv> (if BufferLength c < L \<or> L \<le> 0 then BufferLength c else L)"
  shows "fst (FixedLengthFrameCodec_Decode L c) = Ok (take (nat k) (conn_bytes c))"
    and "conn_bytes (snd (FixedLengthFrameCodec_Decode L c)) = drop (nat k) (conn_bytes c)"
proof -
  let ?c1 = "snd (ReadN c L)"
  have sz: "fst (fst (ReadN c L)) = k" by (simp add: ReadN_size k_def)
  have nonneg: "0 \<le> BufferLength c" by (simp add: BufferLength_conn_bytes)
  have pos: "0 < k" and le: "k \<le> BufferLength ?c1"
    using assms(1) nonneg by (auto simp add: k_def ReadN_snd_length)
  have sh: "conn_bytes (snd (ShiftN ?c1 k)) = drop (nat k) (conn_bytes c)"
    using ShiftN_conn_bytes [OF pos le] by (simp add: ReadN_snd_bytes)
  have ne: "k \<noteq> 0" using pos by simp
  show "fst (FixedLengthFrameCodec_Decode L c) = Ok (take (nat k) (conn_bytes c))"
    using ne ReadN_bytes [of c L]
    by (simp add: FixedLengthFrameCodec_Decode_def split_beta sz)
  show "conn_bytes (snd (FixedLengthFrameCodec_Decode L c)) = drop (nat k) (conn_bytes c)"
    using ne sh by (simp add: FixedLengthFrameCodec_Decode_def split_beta sz)
qed

text \<open>
  The part of C1 that the code keeps: with at least \<open>L > 0\<close> bytes buffered, \<^verbatim>\<open>Decode\<close>
  returns exactly the first \<open>L\<close> bytes and consumes exactly those.
\<close>

lemma FixedLength_Decode_enough:
  assumes "0 < L" "L \<le> BufferLength c"
  shows "fst (Decode (FixedLengthFrameCodec L) c) = Ok (take (nat L) (conn_bytes c))"
    and "conn_bytes (snd (Decode (FixedLengthFrameCodec L) c)) = drop (nat L) (conn_bytes c)"
  using assms FixedLength_Decode_nonempty [of c L] by simp_all

text \<open>
  The part that it does not keep: with some bytes buffered, but fewer than \<open>L\<close>, \<^verbatim>\<open>ReadN\<close>
  clamps the request to what is there, \<^verbatim>\<open>size\<close> is not 0, and \<^verbatim>\<open>Decode\<close> returns the short
  run as a frame and consumes it.
\<close>

lemma FixedLength_Decode_short:
  assumes "0 < BufferLength c" "BufferLength c < L"
  shows "fst (Decode (FixedLengthFrameCodec L) c) = Ok (conn_bytes c)"
    and "conn_bytes (snd (Decode (FixedLengthFrameCodec L) c)) = []"
  using assms FixedLength_Decode_nonempty [of c L] by (simp_all add: BufferLength_conn_bytes)

text \<open>
  C1, at the input where the code departs from it: frame length 4 and the two bytes \<^verbatim>\<open>IJ\<close>
  buffered (the state after the second decode of the spec's scenario 2). The claim says that
  \<^verbatim>\<open>Decode\<close> fails with \<^verbatim>\<open>UnexpectedEOF\<close> and leaves \<^verbatim>\<open>len() = 2\<close>. The code returns the two
  bytes as a frame, without an error, and leaves \<^verbatim>\<open>len() = 0\<close>.
\<close>

theorem FixedLength_Decode_returns_short_frame:
  "BufferLength (conn_of [] [] [73, 74]) = 2
   \<and> Decode (FixedLengthFrameCodec 4) (conn_of [] [] [73, 74]) = (Ok [73, 74], conn_of [] [] [])
   \<and> BufferLength (snd (Decode (FixedLengthFrameCodec 4) (conn_of [] [] [73, 74]))) = 0"
  by (simp add: FixedLengthFrameCodec_Decode_def ReadN_def ShiftN_def ResetBuffer_def
      BufferLength_def RingBuffer_Length_def RingBuffer_IsEmpty_def RingBuffer_Reset_def
      conn_of_def Let_def)

section \<open>Length-field encoder\<close>

lemma LengthField_Encode_negative:
  "length_field_value ec buf < 0 \<Longrightarrow>
     LengthFieldBasedFrameCodec_Encode ec buf = Err ErrTooLessLength"
  by (simp add: LengthFieldBasedFrameCodec_Encode_def Let_def)

text \<open>
  The outcome of the encoder for a non-negative length, width by width. Widths 1, 2 and 3
  are range-checked; widths 4 and 8 are not.
\<close>

lemma LengthField_Encode_width:
  assumes "0 \<le> length_field_value ec buf"
  shows "LengthFieldBasedFrameCodec_Encode ec buf =
     (let len = length_field_value ec buf; w = enc_LengthFieldLength ec; bo = enc_ByteOrder ec
      in if w = 1 then
           (if 2 ^ 8 \<le> len then Err (ErrLengthDoesNotFit ByteWidth len)
            else Ok ([word_of_int len] @ buf))
         else if w = 2 then
           (if 2 ^ 16 \<le> len then Err (ErrLengthDoesNotFit ShortInteger len)
            else Ok (PutUint16 bo (word_of_int len) @ buf))
         else if w = 3 then
           (if 2 ^ 24 \<le> len then Err (ErrLengthDoesNotFit MediumInteger len)
            else Ok (writeUint24 bo len @ buf))
         else if w = 4 then Ok (PutUint32 bo (word_of_int len) @ buf)
         else if w = 8 then Ok (PutUint64 bo (word_of_int len) @ buf)
         else Err ErrUnsupportedLength)"
  using assms by (simp add: LengthFieldBasedFrameCodec_Encode_def Let_def)

text \<open>
  C2, at the input where the code departs from it: a 4-byte length field, an empty frame and
  a length adjustment of \<open>2^32\<close>, so that \<open>L = 2^32\<close> does not fit the field. The claim says that
  the encoder fails with an overflow error naming the width. The code has no range check in
  case 4 of its switch: \<^verbatim>\<open>uint32(length)\<close> keeps the low 32 bits and the encoder returns the
  field \<^verbatim>\<open>00 00 00 00\<close> without an error.
\<close>

theorem LengthField_Encode_width_4_unchecked:
  "length_field_value
     \<lparr>enc_ByteOrder = BigEndian, enc_LengthFieldLength = 4, enc_LengthAdjustment = 4294967296,
      enc_LengthIncludesLengthFieldLength = False\<rparr> [] = 2 ^ 32
   \<and> Encode (LengthFieldBasedFrameCodec
       \<lparr>enc_ByteOrder = BigEndian, enc_LengthFieldLength = 4, enc_LengthAdjustment = 4294967296,
        enc_LengthIncludesLengthFieldLength = False\<rparr>
       \<lparr>dec_ByteOrder = BigEndian, dec_LengthFieldOffset = 0, dec_LengthFieldLength = 4,
        dec_LengthAdjustment = 0, dec_InitialBytesToStrip = 0\<rparr>) []
     = Ok [0, 0, 0, 0]"
proof -
  have v: "go_int 4294967296 = 4294967296"
    by (simp add: go_int_def signed_take_bit_int_eq_self)
  show ?thesis
    by (simp add: LengthFieldBasedFrameCodec_Encode_def length_field_value_def v PutUint32_def
        Let_def)
qed

section \<open>Length-field decoder\<close>

lemma readN_Inr:
  "readN inb n = Inr (x, rest) \<longleftrightarrow>
     0 < n \<and> n \<le> int (length inb) \<and> x = take (nat n) inb \<and> rest = drop (nat n) inb"
  by (auto simp add: readN_def)

lemma readN_Inl: "(\<exists>e. readN inb n = Inl e) \<longleftrightarrow> n \<le> 0 \<or> int (length inb) < n"
  by (auto simp add: readN_def)

lemma discard_header_Ok:
  assumes "discard_header dc inb = Ok (header, rest)" "0 \<le> dec_LengthFieldOffset dc"
  shows "dec_LengthFieldOffset dc \<le> int (length inb)"
    and "header = take (nat (dec_LengthFieldOffset dc)) inb"
    and "rest = drop (nat (dec_LengthFieldOffset dc)) inb"
  using assms
  by (auto simp add: discard_header_def readN_def split: if_splits)

lemma discard_header_append:
  assumes "discard_header dc inb = Ok (header, rest)"
  shows "inb = header @ rest"
  using assms
  by (auto simp add: discard_header_def readN_def split: if_splits)

lemma discard_header_Err:
  assumes "discard_header dc inb = Err e"
  shows "e = ErrUnexpectedEOF \<and> int (length inb) < dec_LengthFieldOffset dc"
  using assms
  by (auto simp add: discard_header_def readN_def split: if_splits)

lemma discard_header_no_Panic: "discard_header dc inb \<noteq> Panic p"
  by (auto simp add: discard_header_def readN_def split: if_splits)

lemma getUnadjustedFrameLength_Ok:
  assumes "getUnadjustedFrameLength dc inb = Ok (lenBuf, F, rest)"
  shows "dec_LengthFieldLength dc \<in> {1, 2, 3, 4, 8}"
    and "dec_LengthFieldLength dc \<le> int (length inb)"
    and "lenBuf = take (nat (dec_LengthFieldLength dc)) inb"
    and "rest = drop (nat (dec_LengthFieldLength dc)) inb"
  using assms
  by (auto simp add: getUnadjustedFrameLength_def readN_def Suc_le_eq
      split: if_splits option.splits)

lemma getUnadjustedFrameLength_Err:
  assumes "getUnadjustedFrameLength dc inb = Err e"
  shows "(e = ErrUnexpectedEOF \<and> dec_LengthFieldLength dc \<in> {1, 2, 3, 4, 8}
            \<and> int (length inb) < dec_LengthFieldLength dc)
         \<or> (e = ErrUnsupportedLength \<and> dec_LengthFieldLength dc \<notin> {1, 2, 3, 4, 8})"
  using assms
  by (auto simp add: getUnadjustedFrameLength_def readN_def
      split: if_splits option.splits)

lemma getUnadjustedFrameLength_no_Panic: "getUnadjustedFrameLength dc inb \<noteq> Panic p"
  by (auto simp add: getUnadjustedFrameLength_def readN_def Uint16_def Uint32_def Uint64_def
      readUint24_def split: if_splits option.splits)

lemma go_copy_prefix:
  "go_copy (replicate (length xs + k) 0) xs = xs @ replicate k 0"
  by (simp add: go_copy_def)

lemma copy_from_prefix:
  "copy_from (length xs) (xs @ replicate (length ys + k) 0) ys = xs @ ys @ replicate k 0"
  by (simp add: copy_from_def go_copy_def)

lemma fullMessage_assembled:
  assumes "length msg = nat m" "0 \<le> m"
  shows "copy_from (length header + length lenBuf)
           (copy_from (length header)
              (go_copy (replicate (nat (int (length header) + int (length lenBuf) + m)) 0) header)
              lenBuf) msg
         = header @ lenBuf @ msg"
proof -
  have n: "nat (int (length header) + int (length lenBuf) + m)
      = length header + (length lenBuf + length msg)"
    using assms by (simp add: nat_add_distrib)
  have "copy_from (length (header @ lenBuf)) ((header @ lenBuf) @ replicate (length msg + 0) 0) msg
      = (header @ lenBuf) @ msg @ replicate 0 0"
    by (rule copy_from_prefix)
  then show ?thesis
    by (simp add: n go_copy_prefix copy_from_prefix)
qed

lemma LengthField_Decode_header_short:
  assumes "discard_header dc (conn_bytes c) = Err e"
  shows "LengthFieldBasedFrameCodec_Decode dc c = (Err e, snd (Read c))"
  using assms by (simp add: LengthFieldBasedFrameCodec_Decode_def split_beta Read_fst)

lemma LengthField_Decode_field_short:
  assumes "discard_header dc (conn_bytes c) = Ok (header, in1)"
    and "getUnadjustedFrameLength dc in1 = Err e"
  shows "LengthFieldBasedFrameCodec_Decode dc c = (Err e, snd (Read c))"
  using assms by (simp add: LengthFieldBasedFrameCodec_Decode_def split_beta Read_fst)

lemma LengthField_Decode_msg_short:
  assumes "discard_header dc (conn_bytes c) = Ok (header, in1)"
    and "getUnadjustedFrameLength dc in1 = Ok (lenBuf, F, in2)"
    and "readN in2 (msgLength_of dc F) = Inl e"
  shows "LengthFieldBasedFrameCodec_Decode dc c = (Err ErrUnexpectedEOF, snd (Read c))"
  using assms by (simp add: LengthFieldBasedFrameCodec_Decode_def split_beta Read_fst)

lemma LengthField_Decode_success:
  assumes dh: "discard_header dc (conn_bytes c) = Ok (header, in1)"
    and gl: "getUnadjustedFrameLength dc in1 = Ok (lenBuf, F, in2)"
    and rd: "readN in2 (msgLength_of dc F) = Inr (msg, in3)"
  shows "conn_bytes c = header @ lenBuf @ msg @ in3"
    and "fst (LengthFieldBasedFrameCodec_Decode dc c) =
          (if dec_InitialBytesToStrip dc < 0
              \<or> int (length (header @ lenBuf @ msg)) < dec_InitialBytesToStrip dc
           then Panic SliceBoundsOutOfRange
           else Ok (drop (nat (dec_InitialBytesToStrip dc)) (header @ lenBuf @ msg)))"
    and "conn_bytes (snd (LengthFieldBasedFrameCodec_Decode dc c)) = in3"
proof -
  let ?full = "header @ lenBuf @ msg" and ?c1 = "snd (Read c)"
  have m: "0 < msgLength_of dc F" "length msg = nat (msgLength_of dc F)"
    using rd by (auto simp add: readN_Inr)
  have in2: "in2 = msg @ in3" using rd by (auto simp add: readN_Inr)
  have in1: "in1 = lenBuf @ in2"
    using getUnadjustedFrameLength_Ok(3,4) [OF gl] by simp
  have bytes: "conn_bytes c = ?full @ in3"
    using discard_header_append [OF dh] in1 in2 by simp
  then show "conn_bytes c = header @ lenBuf @ msg @ in3" by simp
  have asm: "copy_from (length header + length lenBuf)
           (copy_from (length header)
              (go_copy (replicate (nat (int (length header) + int (length lenBuf)
                  + msgLength_of dc F)) 0) header)
              lenBuf) msg = ?full"
    using m by (intro fullMessage_assembled) simp_all
  have pos: "0 < int (length ?full)" using m by simp
  have le: "int (length ?full) \<le> BufferLength ?c1"
    by (simp add: BufferLength_conn_bytes Read_snd_bytes bytes)
  have sh: "conn_bytes (snd (ShiftN ?c1 (int (length ?full)))) = in3"
    using ShiftN_conn_bytes [OF pos le] by (simp add: Read_snd_bytes bytes)
  show "fst (LengthFieldBasedFrameCodec_Decode dc c) =
          (if dec_InitialBytesToStrip dc < 0
              \<or> int (length ?full) < dec_InitialBytesToStrip dc
           then Panic SliceBoundsOutOfRange
           else Ok (drop (nat (dec_InitialBytesToStrip dc)) ?full))"
    using dh gl rd
    by (simp add: LengthFieldBasedFrameCodec_Decode_def split_beta Read_fst Let_def asm
        del: length_append append_assoc)
  show "conn_bytes (snd (LengthFieldBasedFrameCodec_Decode dc c)) = in3"
    using dh gl rd sh
    by (simp add: LengthFieldBasedFrameCodec_Decode_def split_beta Read_fst Let_def asm
        del: length_append append_assoc)
qed

text \<open>
  C10. For every decoder config and every buffer contents on which the decoder gets as far as
  computing the message length (the header bytes and the length field \<open>F\<close> were read): if
  \<open>msg_length = int(F) + LengthAdjustment\<close> is zero or negative, \<^verbatim>\<open>Decode\<close> returns
  \<^verbatim>\<open>ErrUnexpectedEOF\<close> and leaves the buffer as it was, whatever follows the length field and
  however many bytes are buffered.
\<close>

theorem LengthField_Decode_nonpositive_length:
  assumes "discard_header dc (conn_bytes c) = Ok (header, in1)"
    and "getUnadjustedFrameLength dc in1 = Ok (lenBuf, F, in2)"
    and "msgLength_of dc F \<le> 0"
  shows "msgLength_of dc F = go_int (sint F + dec_LengthAdjustment dc)
    \<and> fst (Decode (LengthFieldBasedFrameCodec ec dc) c) = Err ErrUnexpectedEOF
    \<and> conn_bytes (snd (Decode (LengthFieldBasedFrameCodec ec dc) c)) = conn_bytes c
    \<and> BufferLength (snd (Decode (LengthFieldBasedFrameCodec ec dc) c)) = BufferLength c"
proof -
  obtain e where "readN in2 (msgLength_of dc F) = Inl e"
    using assms(3) readN_Inl [of in2 "msgLength_of dc F"] by auto
  with assms(1,2) have "LengthFieldBasedFrameCodec_Decode dc c = (Err ErrUnexpectedEOF, snd (Read c))"
    by (rule LengthField_Decode_msg_short)
  then show ?thesis
    by (simp add: msgLength_of_def Read_snd_bytes Read_snd_length)
qed

theorem LengthField_Decode_nonpositive_length_witness:
  "fst (Decode (LengthFieldBasedFrameCodec
      \<lparr>enc_ByteOrder = BigEndian, enc_LengthFieldLength = 2, enc_LengthAdjustment = 0,
       enc_LengthIncludesLengthFieldLength = False\<rparr>
      \<lparr>dec_ByteOrder = BigEndian, dec_LengthFieldOffset = 0, dec_LengthFieldLength = 2,
       dec_LengthAdjustment = 0, dec_InitialBytesToStrip = 0\<rparr>) (conn_of [] [] [0, 0, 1, 2, 3]))
     = Err ErrUnexpectedEOF
   \<and> conn_bytes (snd (Decode (LengthFieldBasedFrameCodec
      \<lparr>enc_ByteOrder = BigEndian, enc_LengthFieldLength = 2, enc_LengthAdjustment = 0,
       enc_LengthIncludesLengthFieldLength = False\<rparr>
      \<lparr>dec_ByteOrder = BigEndian, dec_LengthFieldOffset = 0, dec_LengthFieldLength = 2,
       dec_LengthAdjustment = 0, dec_InitialBytesToStrip = 0\<rparr>) (conn_of [] [] [0, 0, 1, 2, 3])))
     = [0, 0, 1, 2, 3]"
proof -
  let ?dc = "\<lparr>dec_ByteOrder = BigEndian, dec_LengthFieldOffset = 0, dec_LengthFieldLength = 2,
       dec_LengthAdjustment = 0, dec_InitialBytesToStrip = 0\<rparr>"
  let ?c = "conn_of [] [] [0, 0, 1, 2, 3]"
  have b: "conn_bytes ?c = [0, 0, 1, 2, 3]"
    by (simp add: conn_bytes_def conn_of_def RingBuffer_bytes_def)
  have h1: "discard_header ?dc (conn_bytes ?c) = Ok ([], [0, 0, 1, 2, 3])"
    by (simp add: b discard_header_def)
  have h2: "getUnadjustedFrameLength ?dc [0, 0, 1, 2, 3] = Ok ([0, 0], 0, [1, 2, 3])"
    by (simp add: getUnadjustedFrameLength_def readN_def Uint16_def)
  have h3: "msgLength_of ?dc 0 \<le> 0"
    by (simp add: msgLength_of_def go_int_def)
  show ?thesis
    using LengthField_Decode_nonpositive_length [OF h1 h2 h3] by (simp add: b)
qed

lemma LengthField_fullMessage_length:
  assumes "0 \<le> dec_LengthFieldOffset dc"
    and "discard_header dc inb = Ok (header, in1)"
    and "getUnadjustedFrameLength dc in1 = Ok (lenBuf, F, in2)"
    and "readN in2 (msgLength_of dc F) = Inr (msg, in3)"
  shows "int (length (header @ lenBuf @ msg))
      = dec_LengthFieldOffset dc + dec_LengthFieldLength dc + msgLength_of dc F"
proof -
  have h: "int (length header) = dec_LengthFieldOffset dc"
    using discard_header_Ok(1,2) [OF assms(2) assms(1)] assms(1) by simp
  have w: "0 \<le> dec_LengthFieldLength dc"
    using getUnadjustedFrameLength_Ok(1) [OF assms(3)] by auto
  have l: "int (length lenBuf) = dec_LengthFieldLength dc"
    using getUnadjustedFrameLength_Ok(2,3) [OF assms(3)] w by simp
  have m: "int (length msg) = msgLength_of dc F"
    using assms(4) by (auto simp add: readN_Inr)
  show ?thesis using h l m by simp
qed

text \<open>
  C9. For every length-field decode that reaches the success path (header, length field and
  message were all read), under a decoder config of the spec's domain (offset and
  \<^verbatim>\<open>InitialBytesToStrip\<close> not negative): the assembled full message has
  \<open>LengthFieldOffset + LengthFieldLength + msg_length\<close> bytes; if \<^verbatim>\<open>InitialBytesToStrip\<close> is at
  most that length, the final slice is in bounds and \<^verbatim>\<open>Decode\<close> returns the full message without
  its first \<^verbatim>\<open>InitialBytesToStrip\<close> bytes; if it exceeds that length, \<^verbatim>\<open>Decode\<close> neither returns
  an error nor clamps: the slice expression panics. In both cases the buffer has already been
  advanced past the frame.
\<close>

theorem LengthField_Decode_strip_bounds:
  assumes "0 \<le> dec_LengthFieldOffset dc"
    and "0 \<le> dec_InitialBytesToStrip dc"
    and "discard_header dc (conn_bytes c) = Ok (header, in1)"
    and "getUnadjustedFrameLength dc in1 = Ok (lenBuf, F, in2)"
    and "readN in2 (msgLength_of dc F) = Inr (msg, in3)"
  shows "int (length (header @ lenBuf @ msg))
      = dec_LengthFieldOffset dc + dec_LengthFieldLength dc + msgLength_of dc F
    \<and> (dec_InitialBytesToStrip dc
          \<le> dec_LengthFieldOffset dc + dec_LengthFieldLength dc + msgLength_of dc F \<longrightarrow>
         fst (Decode (LengthFieldBasedFrameCodec ec dc) c)
           = Ok (drop (nat (dec_InitialBytesToStrip dc)) (header @ lenBuf @ msg)))
    \<and> (dec_LengthFieldOffset dc + dec_LengthFieldLength dc + msgLength_of dc F
          < dec_InitialBytesToStrip dc \<longrightarrow>
         fst (Decode (LengthFieldBasedFrameCodec ec dc) c) = Panic SliceBoundsOutOfRange)
    \<and> conn_bytes (snd (Decode (LengthFieldBasedFrameCodec ec dc) c)) = in3"
proof -
  have len: "int (length (header @ lenBuf @ msg))
      = dec_LengthFieldOffset dc + dec_LengthFieldLength dc + msgLength_of dc F"
    using assms(1,3,4,5) by (rule LengthField_fullMessage_length)
  note res = LengthField_Decode_success(2,3) [OF assms(3,4,5)]
  show ?thesis
    using assms(2) len res by (simp del: length_append)
qed

theorem LengthField_Decode_strip_bounds_witness:
  "fst (Decode (LengthFieldBasedFrameCodec
      \<lparr>enc_ByteOrder = BigEndian, enc_LengthFieldLength = 2, enc_LengthAdjustment = 0,
       enc_LengthIncludesLengthFieldLength = False\<rparr>
      \<lparr>dec_ByteOrder = BigEndian, dec_LengthFieldOffset = 0, dec_LengthFieldLength = 2,
       dec_LengthAdjustment = 0, dec_InitialBytesToStrip = 2\<rparr>) (conn_of [] [] [0, 2, 104, 105, 7]))
     = Ok [104, 105]
   \<and> fst (Decode (LengthFieldBasedFrameCodec
      \<lparr>enc_ByteOrder = BigEndian, enc_LengthFieldLength = 2, enc_LengthAdjustment = 0,
       enc_LengthIncludesLengthFieldLength = False\<rparr>
      \<lparr>dec_ByteOrder = BigEndian, dec_LengthFieldOffset = 0, dec_LengthFieldLength = 2,
       dec_LengthAdjustment = 0, dec_InitialBytesToStrip = 5\<rparr>) (conn_of [] [] [0, 2, 104, 105, 7]))
     = Panic SliceBoundsOutOfRange
   \<and> conn_bytes (snd (Decode (LengthFieldBasedFrameCodec
      \<lparr>enc_ByteOrder = BigEndian, enc_LengthFieldLength = 2, enc_LengthAdjustment = 0,
       enc_LengthIncludesLengthFieldLength = False\<rparr>
      \<lparr>dec_ByteOrder = BigEndian, dec_LengthFieldOffset = 0, dec_LengthFieldLength = 2,
       dec_LengthAdjustment = 0, dec_InitialBytesToStrip = 5\<rparr>) (conn_of [] [] [0, 2, 104, 105, 7])))
     = [7]"
proof -
  let ?ec = "\<lparr>enc_ByteOrder = BigEndian, enc_LengthFieldLength = 2, enc_LengthAdjustment = 0,
       enc_LengthIncludesLengthFieldLength = False\<rparr>"
  let ?dc2 = "\<lparr>dec_ByteOrder = BigEndian, dec_LengthFieldOffset = 0, dec_LengthFieldLength = 2,
       dec_LengthAdjustment = 0, dec_InitialBytesToStrip = 2\<rparr>"
  let ?dc5 = "\<lparr>dec_ByteOrder = BigEndian, dec_LengthFieldOffset = 0, dec_LengthFieldLength = 2,
       dec_LengthAdjustment = 0, dec_InitialBytesToStrip = 5\<rparr>"
  let ?c = "conn_of [] [] [0, 2, 104, 105, 7]"
  have b: "conn_bytes ?c = [0, 2, 104, 105, 7]"
    by (simp add: conn_bytes_def conn_of_def RingBuffer_bytes_def)
  have g: "go_int 2 = 2" by (simp add: go_int_def signed_take_bit_int_eq_self)
  have a2: "0 \<le> dec_LengthFieldOffset ?dc2" "0 \<le> dec_InitialBytesToStrip ?dc2"
    "discard_header ?dc2 (conn_bytes ?c) = Ok ([], [0, 2, 104, 105, 7])"
    "getUnadjustedFrameLength ?dc2 [0, 2, 104, 105, 7] = Ok ([0, 2], 2, [104, 105, 7])"
    "readN [104, 105, 7] (msgLength_of ?dc2 2) = Inr ([104, 105], [7])"
    by (simp_all add: b discard_header_def getUnadjustedFrameLength_def readN_def Uint16_def
        msgLength_of_def g)
  have a5: "0 \<le> dec_LengthFieldOffset ?dc5" "0 \<le> dec_InitialBytesToStrip ?dc5"
    "discard_header ?dc5 (conn_bytes ?c) = Ok ([], [0, 2, 104, 105, 7])"
    "getUnadjustedFrameLength ?dc5 [0, 2, 104, 105, 7] = Ok ([0, 2], 2, [104, 105, 7])"
    "readN [104, 105, 7] (msgLength_of ?dc5 2) = Inr ([104, 105], [7])"
    by (simp_all add: b discard_header_def getUnadjustedFrameLength_def readN_def Uint16_def
        msgLength_of_def g)
  show ?thesis
    using LengthField_Decode_strip_bounds [OF a2, of ?ec]
      LengthField_Decode_strip_bounds [OF a5, of ?ec]
    by (simp add: msgLength_of_def g)
qed

text \<open>
  The outcome of the length-field decoder and the bytes it leaves buffered are functions of
  the config and of the logical buffer contents alone: neither the cached join buffer nor the
  way the bytes are split between ring and scratch buffer has a say.
\<close>

lemma LengthField_Decode_by_bytes:
  assumes same: "conn_bytes c2 = conn_bytes c"
  shows "fst (LengthFieldBasedFrameCodec_Decode dc c2) = fst (LengthFieldBasedFrameCodec_Decode dc c)
    \<and> conn_bytes (snd (LengthFieldBasedFrameCodec_Decode dc c2))
        = conn_bytes (snd (LengthFieldBasedFrameCodec_Decode dc c))"
proof (cases "discard_header dc (conn_bytes c)")
  case (Err e)
  then show ?thesis
    using LengthField_Decode_header_short [of dc c e] LengthField_Decode_header_short [of dc c2 e]
    by (simp add: same Read_snd_bytes)
next
  case (Panic p)
  then show ?thesis by (simp add: discard_header_no_Panic)
next
  case (Ok hr)
  obtain header in1 where hr: "hr = (header, in1)" by (cases hr)
  note dh = Ok [unfolded hr]
  show ?thesis
  proof (cases "getUnadjustedFrameLength dc in1")
    case (Err e)
    then show ?thesis
      using LengthField_Decode_field_short [of dc c header in1 e]
        LengthField_Decode_field_short [of dc c2 header in1 e] dh
      by (simp add: same Read_snd_bytes)
  next
    case (Panic p)
    then show ?thesis by (simp add: getUnadjustedFrameLength_no_Panic)
  next
    case (Ok lf)
    obtain lenBuf F in2 where lf: "lf = (lenBuf, F, in2)" by (cases lf)
    note gl = Ok [unfolded lf]
    show ?thesis
    proof (cases "readN in2 (msgLength_of dc F)")
      case (Inl e)
      then show ?thesis
        using LengthField_Decode_msg_short [of dc c header in1 lenBuf F in2 e]
          LengthField_Decode_msg_short [of dc c2 header in1 lenBuf F in2 e] dh gl
        by (simp add: same Read_snd_bytes)
    next
      case (Inr mr)
      obtain msg in3 where mr: "mr = (msg, in3)" by (cases mr)
      note rd = Inr [unfolded mr]
      have dh2: "discard_header dc (conn_bytes c2) = Ok (header, in1)" using dh by (simp add: same)
      show ?thesis
        using LengthField_Decode_success(2,3) [OF dh gl rd]
          LengthField_Decode_success(2,3) [OF dh2 gl rd]
        by simp
    qed
  qed
qed

text \<open>
  C6, as amended. For every decoder config of the spec's domain (offset and
  \<^verbatim>\<open>InitialBytesToStrip\<close> not negative, a length-field width among 1, 2, 3, 4 and 8) and every
  buffer contents \<open>b\<close>, a single call of \<^verbatim>\<open>Decode\<close> has one of two effects on the buffer. Either
  a complete frame is buffered: the length field \<open>F\<close> read behind the header gives a positive
  \<open>msg_length\<close>, the logical head advances by exactly
  \<open>full = LengthFieldOffset + LengthFieldLength + msg_length\<close> bytes, and the call returns the
  first \<open>full\<close> bytes of \<open>b\<close> without their first \<^verbatim>\<open>InitialBytesToStrip\<close> bytes, or, when
  \<^verbatim>\<open>InitialBytesToStrip\<close> exceeds \<open>full\<close>, panics at the final slice expression after the head
  has advanced. Or the call returns \<^verbatim>\<open>ErrUnexpectedEOF\<close> with the logical buffer contents and
  \<^verbatim>\<open>len()\<close> exactly as before. No decoding state persists: outcome and remaining bytes are the
  same for every connection state with the same logical contents.
\<close>

theorem LengthField_Decode_frame_or_short_read:
  assumes "0 \<le> dec_LengthFieldOffset dc"
    and "dec_LengthFieldLength dc \<in> {1, 2, 3, 4, 8}"
    and "0 \<le> dec_InitialBytesToStrip dc"
  shows
    "(let b = conn_bytes c;
          d = Decode (LengthFieldBasedFrameCodec ec dc) c;
          off = dec_LengthFieldOffset dc;
          w = dec_LengthFieldLength dc;
          strip = dec_InitialBytesToStrip dc
      in ((\<exists>lenBuf F rest.
             getUnadjustedFrameLength dc (drop (nat off) b) = Ok (lenBuf, F, rest)
             \<and> 0 < msgLength_of dc F
             \<and> off + w + msgLength_of dc F \<le> int (length b)
             \<and> conn_bytes (snd d) = drop (nat (off + w + msgLength_of dc F)) b
             \<and> BufferLength (snd d) = BufferLength c - (off + w + msgLength_of dc F)
             \<and> fst d =
                 (if strip \<le> off + w + msgLength_of dc F
                  then Ok (drop (nat strip) (take (nat (off + w + msgLength_of dc F)) b))
                  else Panic SliceBoundsOutOfRange))
          \<or> (fst d = Err ErrUnexpectedEOF \<and> conn_bytes (snd d) = b
              \<and> BufferLength (snd d) = BufferLength c
              \<and> (int (length b) < off + w
                   \<or> (\<exists>lenBuf F rest.
                        getUnadjustedFrameLength dc (drop (nat off) b) = Ok (lenBuf, F, rest)
                        \<and> (msgLength_of dc F \<le> 0
                             \<or> int (length b) < off + w + msgLength_of dc F)))))
         \<and> (\<forall>c2. conn_bytes c2 = b \<longrightarrow>
               fst (Decode (LengthFieldBasedFrameCodec ec dc) c2) = fst d
               \<and> conn_bytes (snd (Decode (LengthFieldBasedFrameCodec ec dc) c2))
                   = conn_bytes (snd d)))"
proof -
  let ?b = "conn_bytes c" and ?d = "LengthFieldBasedFrameCodec_Decode dc c"
  let ?off = "dec_LengthFieldOffset dc" and ?w = "dec_LengthFieldLength dc"
  let ?strip = "dec_InitialBytesToStrip dc"
  let ?why = "int (length ?b) < ?off + ?w
      \<or> (\<exists>lenBuf F rest.
           getUnadjustedFrameLength dc (drop (nat ?off) ?b) = Ok (lenBuf, F, rest)
           \<and> (msgLength_of dc F \<le> 0 \<or> int (length ?b) < ?off + ?w + msgLength_of dc F))"
  let ?short = "fst ?d = Err ErrUnexpectedEOF \<and> conn_bytes (snd ?d) = ?b
      \<and> BufferLength (snd ?d) = BufferLength c \<and> ?why"
  let ?frame = "\<exists>lenBuf F rest.
      getUnadjustedFrameLength dc (drop (nat ?off) ?b) = Ok (lenBuf, F, rest)
      \<and> 0 < msgLength_of dc F
      \<and> ?off + ?w + msgLength_of dc F \<le> int (length ?b)
      \<and> conn_bytes (snd ?d) = drop (nat (?off + ?w + msgLength_of dc F)) ?b
      \<and> BufferLength (snd ?d) = BufferLength c - (?off + ?w + msgLength_of dc F)
      \<and> fst ?d =
          (if ?strip \<le> ?off + ?w + msgLength_of dc F
           then Ok (drop (nat ?strip) (take (nat (?off + ?w + msgLength_of dc F)) ?b))
           else Panic SliceBoundsOutOfRange)"
  have unread: "?short" if "?d = (Err ErrUnexpectedEOF, snd (Read c))" and "?why"
    using that by (simp only: fst_conv snd_conv Read_snd_bytes Read_snd_length)
  have w: "1 \<le> ?w" using assms(2) by auto
  have main: "?frame \<or> ?short"
  proof (cases "discard_header dc ?b")
    case (Err e)
    then have "?d = (Err ErrUnexpectedEOF, snd (Read c))"
      using LengthField_Decode_header_short [of dc c e] discard_header_Err [of dc ?b e] by simp
    moreover have "int (length ?b) < ?off + ?w"
      using discard_header_Err [OF Err] w by linarith
    ultimately show ?thesis using unread by blast
  next
    case (Panic p)
    then show ?thesis by (simp add: discard_header_no_Panic)
  next
    case (Ok hr)
    obtain header in1 where hr: "hr = (header, in1)" by (cases hr)
    note dh = Ok [unfolded hr]
    have in1: "in1 = drop (nat ?off) ?b" and header: "header = take (nat ?off) ?b"
      using discard_header_Ok [OF dh assms(1)] by simp_all
    show ?thesis
    proof (cases "getUnadjustedFrameLength dc in1")
      case (Err e)
      then have e: "e = ErrUnexpectedEOF" and sh: "int (length in1) < ?w"
        using getUnadjustedFrameLength_Err [of dc in1 e] assms(2) by blast+
      have "?d = (Err ErrUnexpectedEOF, snd (Read c))"
        using LengthField_Decode_field_short [OF dh Err] e by simp
      moreover have "int (length ?b) < ?off + ?w"
        using sh assms(1) discard_header_Ok(1) [OF dh assms(1)] by (simp add: in1)
      ultimately show ?thesis using unread by blast
    next
      case (Panic p)
      then show ?thesis by (simp add: getUnadjustedFrameLength_no_Panic)
    next
      case (Ok lf)
      obtain lenBuf F in2 where lf: "lf = (lenBuf, F, in2)" by (cases lf)
      note gl = Ok [unfolded lf]
      show ?thesis
      proof (cases "readN in2 (msgLength_of dc F)")
        case (Inl e)
        then have "?d = (Err ErrUnexpectedEOF, snd (Read c))"
          using LengthField_Decode_msg_short [OF dh gl] by simp
        moreover have "msgLength_of dc F \<le> 0 \<or> int (length ?b) < ?off + ?w + msgLength_of dc F"
        proof -
          have "msgLength_of dc F \<le> 0 \<or> int (length in2) < msgLength_of dc F"
            using Inl readN_Inl [of in2 "msgLength_of dc F"] by blast
          moreover have "int (length in2) = int (length ?b) - ?off - ?w"
            using getUnadjustedFrameLength_Ok(2,4) [OF gl] discard_header_Ok(1) [OF dh assms(1)]
              assms(1) w
            by (simp add: in1)
          ultimately show ?thesis by linarith
        qed
        then have "?why"
          using gl [unfolded in1] by blast
        ultimately show ?thesis using unread by blast
      next
        case (Inr mr)
        obtain msg in3 where mr: "mr = (msg, in3)" by (cases mr)
        note rd = Inr [unfolded mr]
        let ?m = "msgLength_of dc F"
        let ?full = "?off + ?w + ?m"
        have pos: "0 < ?m" using rd by (auto simp add: readN_Inr)
        have len: "int (length (header @ lenBuf @ msg)) = ?full"
          using assms(1) dh gl rd by (rule LengthField_fullMessage_length)
        have split: "?b = (header @ lenBuf @ msg) @ in3"
          using LengthField_Decode_success(1) [OF dh gl rd] by simp
        have n: "nat ?full = length (header @ lenBuf @ msg)"
          using len by linarith
        have tk: "take (nat ?full) ?b = header @ lenBuf @ msg"
          by (subst split, subst n) simp
        have dr: "drop (nat ?full) ?b = in3"
          by (subst split, subst n) simp
        have fits: "?full \<le> int (length ?b)"
          by (subst split) (use len in simp)
        have rest: "conn_bytes (snd ?d) = drop (nat ?full) ?b"
          using LengthField_Decode_success(3) [OF dh gl rd] dr by simp
        have blen: "BufferLength (snd ?d) = BufferLength c - ?full"
        proof -
          have "0 \<le> ?full" using len by linarith
          then have "int (length (drop (nat ?full) ?b)) = int (length ?b) - ?full"
            using fits by simp
          then show ?thesis by (simp only: BufferLength_conn_bytes rest)
        qed
        have res: "fst ?d =
            (if ?strip \<le> ?full then Ok (drop (nat ?strip) (take (nat ?full) ?b))
             else Panic SliceBoundsOutOfRange)"
          using LengthField_Decode_success(2) [OF dh gl rd] assms(3) len
          by (simp only: tk) (simp del: length_append)
        have "?frame"
          by (rule exI [where x = lenBuf], rule exI [where x = F], rule exI [where x = in2])
            (intro conjI gl [unfolded in1] pos fits rest blen res)
        then show ?thesis ..
      qed
    qed
  qed
  have indep: "\<forall>c2. conn_bytes c2 = ?b \<longrightarrow>
      fst (LengthFieldBasedFrameCodec_Decode dc c2) = fst ?d
      \<and> conn_bytes (snd (LengthFieldBasedFrameCodec_Decode dc c2)) = conn_bytes (snd ?d)"
    using LengthField_Decode_by_bytes by blast
  show ?thesis
    unfolding Let_def Decode.simps using main indep by (rule conjI)
qed

theorem LengthField_Decode_frame_or_short_read_witness:
  "fst (Decode (LengthFieldBasedFrameCodec
      \<lparr>enc_ByteOrder = BigEndian, enc_LengthFieldLength = 2, enc_LengthAdjustment = 0,
       enc_LengthIncludesLengthFieldLength = False\<rparr>
      \<lparr>dec_ByteOrder = BigEndian, dec_LengthFieldOffset = 0, dec_LengthFieldLength = 2,
       dec_LengthAdjustment = 0, dec_InitialBytesToStrip = 0\<rparr>) (conn_of [0] [2] [104, 105, 0, 5]))
     = Ok [0, 2, 104, 105]
   \<and> conn_bytes (snd (Decode (LengthFieldBasedFrameCodec
      \<lparr>enc_ByteOrder = BigEndian, enc_LengthFieldLength = 2, enc_LengthAdjustment = 0,
       enc_LengthIncludesLengthFieldLength = False\<rparr>
      \<lparr>dec_ByteOrder = BigEndian, dec_LengthFieldOffset = 0, dec_LengthFieldLength = 2,
       dec_LengthAdjustment = 0, dec_InitialBytesToStrip = 0\<rparr>) (conn_of [0] [2] [104, 105, 0, 5])))
     = [0, 5]
   \<and> fst (Decode (LengthFieldBasedFrameCodec
      \<lparr>enc_ByteOrder = BigEndian, enc_LengthFieldLength = 2, enc_LengthAdjustment = 0,
       enc_LengthIncludesLengthFieldLength = False\<rparr>
      \<lparr>dec_ByteOrder = BigEndian, dec_LengthFieldOffset = 0, dec_LengthFieldLength = 2,
       dec_LengthAdjustment = 0, dec_InitialBytesToStrip = 0\<rparr>) (conn_of [] [] [0, 2, 104]))
     = Err ErrUnexpectedEOF
   \<and> conn_bytes (snd (Decode (LengthFieldBasedFrameCodec
      \<lparr>enc_ByteOrder = BigEndian, enc_LengthFieldLength = 2, enc_LengthAdjustment = 0,
       enc_LengthIncludesLengthFieldLength = False\<rparr>
      \<lparr>dec_ByteOrder = BigEndian, dec_LengthFieldOffset = 0, dec_LengthFieldLength = 2,
       dec_LengthAdjustment = 0, dec_InitialBytesToStrip = 0\<rparr>) (conn_of [] [] [0, 2, 104])))
     = [0, 2, 104]"
proof -
  let ?ec = "\<lparr>enc_ByteOrder = BigEndian, enc_LengthFieldLength = 2, enc_LengthAdjustment = 0,
       enc_LengthIncludesLengthFieldLength = False\<rparr>"
  let ?dc = "\<lparr>dec_ByteOrder = BigEndian, dec_LengthFieldOffset = 0, dec_LengthFieldLength = 2,
       dec_LengthAdjustment = 0, dec_InitialBytesToStrip = 0\<rparr>"
  have b1: "conn_bytes (conn_of [0] [2] [104, 105, 0, 5]) = [0, 2, 104, 105, 0, 5]"
    by (simp add: conn_bytes_def conn_of_def RingBuffer_bytes_def)
  have b2: "conn_bytes (conn_of [] [] [0, 2, 104]) = [0, 2, 104]"
    by (simp add: conn_bytes_def conn_of_def RingBuffer_bytes_def)
  have g: "go_int 2 = 2" by (simp add: go_int_def signed_take_bit_int_eq_self)
  have v: "0 \<le> dec_LengthFieldOffset ?dc" "dec_LengthFieldLength ?dc \<in> {1, 2, 3, 4, 8}"
    "0 \<le> dec_InitialBytesToStrip ?dc"
    by simp_all
  have f1: "getUnadjustedFrameLength ?dc [0, 2, 104, 105, 0, 5] = Ok ([0, 2], 2, [104, 105, 0, 5])"
    by (simp add: getUnadjustedFrameLength_def readN_def Uint16_def)
  have f2: "getUnadjustedFrameLength ?dc [0, 2, 104] = Ok ([0, 2], 2, [104])"
    by (simp add: getUnadjustedFrameLength_def readN_def Uint16_def)
  have m: "msgLength_of ?dc 2 = 2" by (simp add: msgLength_of_def g)
  note t1 = LengthField_Decode_frame_or_short_read [OF v, of "conn_of [0] [2] [104, 105, 0, 5]" ?ec]
  note t2 = LengthField_Decode_frame_or_short_read [OF v, of "conn_of [] [] [0, 2, 104]" ?ec]
  have r1: "fst (Decode (LengthFieldBasedFrameCodec ?ec ?dc) (conn_of [0] [2] [104, 105, 0, 5]))
       = Ok [0, 2, 104, 105]
     \<and> conn_bytes (snd (Decode (LengthFieldBasedFrameCodec ?ec ?dc)
          (conn_of [0] [2] [104, 105, 0, 5]))) = [0, 5]"
    using t1 by (simp add: Let_def b1 f1 m)
  have r2: "fst (Decode (LengthFieldBasedFrameCodec ?ec ?dc) (conn_of [] [] [0, 2, 104]))
       = Err ErrUnexpectedEOF
     \<and> conn_bytes (snd (Decode (LengthFieldBasedFrameCodec ?ec ?dc)
          (conn_of [] [] [0, 2, 104]))) = [0, 2, 104]"
    using t2 by (simp add: Let_def b2 f2 m)
  from r1 r2 show ?thesis by simp
qed

text \<open>
  C6 as stated fails where \<^verbatim>\<open>InitialBytesToStrip\<close> exceeds the length of the frame. With a
  1-byte length field, no offset, no adjustment and \<^verbatim>\<open>InitialBytesToStrip = 5\<close>, the two
  buffered bytes \<^verbatim>\<open>01 41\<close> are a complete frame of length 2. The call neither returns a frame
  nor returns \<^verbatim>\<open>ErrUnexpectedEOF\<close> with the buffer untouched: it panics, and the buffer has been
  emptied before.
\<close>

theorem LengthField_Decode_strip_past_frame:
  "conn_bytes (conn_of [] [] [1, 65]) = [1, 65]
   \<and> fst (Decode (LengthFieldBasedFrameCodec
      \<lparr>enc_ByteOrder = BigEndian, enc_LengthFieldLength = 1, enc_LengthAdjustment = 0,
       enc_LengthIncludesLengthFieldLength = False\<rparr>
      \<lparr>dec_ByteOrder = BigEndian, dec_LengthFieldOffset = 0, dec_LengthFieldLength = 1,
       dec_LengthAdjustment = 0, dec_InitialBytesToStrip = 5\<rparr>) (conn_of [] [] [1, 65]))
     = Panic SliceBoundsOutOfRange
   \<and> conn_bytes (snd (Decode (LengthFieldBasedFrameCodec
      \<lparr>enc_ByteOrder = BigEndian, enc_LengthFieldLength = 1, enc_LengthAdjustment = 0,
       enc_LengthIncludesLengthFieldLength = False\<rparr>
      \<lparr>dec_ByteOrder = BigEndian, dec_LengthFieldOffset = 0, dec_LengthFieldLength = 1,
       dec_LengthAdjustment = 0, dec_InitialBytesToStrip = 5\<rparr>) (conn_of [] [] [1, 65])))
     = []"
proof -
  let ?dc = "\<lparr>dec_ByteOrder = BigEndian, dec_LengthFieldOffset = 0, dec_LengthFieldLength = 1,
       dec_LengthAdjustment = 0, dec_InitialBytesToStrip = 5\<rparr>"
  have b: "conn_bytes (conn_of [] [] [1, 65]) = [1, 65]"
    by (simp add: conn_bytes_def conn_of_def RingBuffer_bytes_def)
  have g: "go_int 1 = 1" by (simp add: go_int_def signed_take_bit_int_eq_self)
  have dh: "discard_header ?dc (conn_bytes (conn_of [] [] [1, 65])) = Ok ([], [1, 65])"
    by (simp add: b discard_header_def)
  have gl: "getUnadjustedFrameLength ?dc [1, 65] = Ok ([1], 1, [65])"
    by (simp add: getUnadjustedFrameLength_def readN_def)
  have rd: "readN [65] (msgLength_of ?dc 1) = Inr ([65], [])"
    by (simp add: readN_def msgLength_of_def g)
  show ?thesis
    using LengthField_Decode_success(2,3) [OF dh gl rd] by (simp add: b)
qed

section \<open>Byte orders and the serialised length field\<close>

lemma bit_byte_at:
  "bit (push_bit k (ucast (ucast (drop_bit k v) :: byte)) :: 'a::len word) n
     \<longleftrightarrow> k \<le> n \<and> n < k + 8 \<and> bit (v :: 'a word) n"
  by (auto simp: bit_simps dest: bit_imp_le_length)

lemma bit_byte_0:
  "bit (ucast (ucast v :: byte) :: 'a::len word) n \<longleftrightarrow> n < 8 \<and> bit (v :: 'a word) n"
  by (auto simp: bit_simps dest: bit_imp_le_length)

lemma Uint16_PutUint16: "Uint16 bo (PutUint16 bo v) = Some v"
proof -
  have "n < 16 \<Longrightarrow> n < 8 \<or> 8 \<le> n \<and> n < 8 + 8" for n :: nat by arith
  then show ?thesis
    by (cases bo; simp add: Uint16_def PutUint16_def; intro bit_word_eqI;
      simp add: bit_or_iff bit_byte_at bit_byte_0; blast)
qed

lemma Uint32_PutUint32: "Uint32 bo (PutUint32 bo v) = Some v"
proof -
  have "n < 32 \<Longrightarrow> n < 8 \<or> 8 \<le> n \<and> n < 8 + 8 \<or> 16 \<le> n \<and> n < 16 + 8 \<or> 24 \<le> n \<and> n < 24 + 8"
    for n :: nat by arith
  then show ?thesis
    by (cases bo; simp add: Uint32_def PutUint32_def; intro bit_word_eqI;
      simp add: bit_or_iff bit_byte_at bit_byte_0; blast)
qed

lemma Uint64_PutUint64: "Uint64 bo (PutUint64 bo v) = Some v"
proof -
  have "n < 64 \<Longrightarrow> n < 8 \<or> 8 \<le> n \<and> n < 8 + 8 \<or> 16 \<le> n \<and> n < 16 + 8 \<or> 24 \<le> n \<and> n < 24 + 8
     \<or> 32 \<le> n \<and> n < 32 + 8 \<or> 40 \<le> n \<and> n < 40 + 8 \<or> 48 \<le> n \<and> n < 48 + 8 \<or> 56 \<le> n \<and> n < 56 + 8"
    for n :: nat by arith
  then show ?thesis
    by (cases bo; simp add: Uint64_def PutUint64_def; intro bit_word_eqI;
      simp add: bit_or_iff bit_byte_at bit_byte_0; blast)
qed

lemma byte_of_drop_bit:
  "8 + k \<le> LENGTH('a) \<Longrightarrow>
     (ucast (drop_bit k (word_of_int v :: 'a::len word)) :: byte) = word_of_int (drop_bit k v)"
  by (rule bit_word_eqI) (auto simp: bit_simps)

lemma byte_of_word:
  "8 \<le> LENGTH('a) \<Longrightarrow> (ucast (word_of_int v :: 'a::len word) :: byte) = word_of_int v"
  by (rule bit_word_eqI) (auto simp: bit_simps)

lemma le_bytes_length: "length (le_bytes k v) = k"
  by (induction k arbitrary: v) simp_all

lemma le_value_le_bytes: "le_value (le_bytes k v) = v mod 2 ^ (8 * k)"
proof (induction k arbitrary: v)
  case 0
  show ?case by simp
next
  case (Suc k)
  have "le_value (le_bytes (Suc k) v) = v mod 256 + 256 * (v div 256 mod 2 ^ (8 * k))"
    by (simp add: Suc uint_word_of_int drop_bit_eq_div)
  also have "\<dots> = v mod (256 * 2 ^ (8 * k))"
    by (simp add: zmod_zmult2_eq)
  finally show ?case by (simp add: power_add)
qed

lemma le_bytes_numeral:
  "le_bytes (numeral k) v = word_of_int v # le_bytes (pred_numeral k) (drop_bit 8 v)"
  by (simp add: numeral_eq_Suc)

lemma le_bytes_2: "le_bytes 2 v = [word_of_int v, word_of_int (drop_bit 8 v)]"
  by (simp add: le_bytes_numeral)

lemma le_bytes_3:
  "le_bytes 3 v = [word_of_int v, word_of_int (drop_bit 8 v), word_of_int (drop_bit 16 v)]"
  by (simp add: le_bytes_numeral)

lemma le_bytes_4:
  "le_bytes 4 v =
     [word_of_int v, word_of_int (drop_bit 8 v), word_of_int (drop_bit 16 v),
      word_of_int (drop_bit 24 v)]"
  by (simp add: le_bytes_numeral)

lemma le_bytes_8:
  "le_bytes 8 v =
     [word_of_int v, word_of_int (drop_bit 8 v), word_of_int (drop_bit 16 v),
      word_of_int (drop_bit 24 v), word_of_int (drop_bit 32 v), word_of_int (drop_bit 40 v),
      word_of_int (drop_bit 48 v), word_of_int (drop_bit 56 v)]"
  by (simp add: le_bytes_numeral)

lemma writeUint24_serialise: "writeUint24 bo v = spec_serialise bo 3 v"
  by (cases bo) (simp_all add: writeUint24_def spec_serialise_def le_bytes_3)

lemma PutUint16_serialise: "PutUint16 bo (word_of_int v) = spec_serialise bo 2 v"
  by (cases bo)
    (simp_all add: PutUint16_def spec_serialise_def le_bytes_2 byte_of_drop_bit byte_of_word)

lemma PutUint32_serialise: "PutUint32 bo (word_of_int v) = spec_serialise bo 4 v"
  by (cases bo)
    (simp_all add: PutUint32_def spec_serialise_def le_bytes_4 byte_of_drop_bit byte_of_word)

lemma PutUint64_serialise: "PutUint64 bo (word_of_int v) = spec_serialise bo 8 v"
  by (cases bo)
    (simp_all add: PutUint64_def spec_serialise_def le_bytes_8 byte_of_drop_bit byte_of_word)

lemma spec_serialise_length: "length (spec_serialise bo k v) = k"
  by (cases bo) (simp_all add: spec_serialise_def le_bytes_length)

lemma spec_field_value_serialise: "spec_field_value bo (spec_serialise bo k v) = v mod 2 ^ (8 * k)"
  by (cases bo) (simp_all add: spec_field_value_def spec_serialise_def le_value_le_bytes)

lemma go_int_range: "- (2 ^ 63) \<le> go_int x \<and> go_int x < 2 ^ 63"
  using signed_take_bit_int_less_exp [of 63 x] signed_take_bit_int_greater_eq_minus_exp [of 63 x]
  by (simp add: go_int_def)

lemma go_int_id: "- (2 ^ 63) \<le> x \<Longrightarrow> x < 2 ^ 63 \<Longrightarrow> go_int x = x"
  by (simp add: go_int_def signed_take_bit_int_eq_self)

lemma sint_ucast_small:
  assumes "LENGTH('a::len) < 64" "0 \<le> v" "v < 2 ^ LENGTH('a)"
  shows "sint (ucast (word_of_int v :: 'a word) :: 64 word) = v"
proof -
  have u: "uint (word_of_int v :: 'a word) = v"
    using assms by (simp add: uint_word_of_int)
  have "(2::int) ^ LENGTH('a) \<le> 2 ^ 63"
    using assms(1) by (intro power_increasing) simp_all
  with assms(3) have lt: "v < 2 ^ 63" by linarith
  have ge: "- (2 ^ 63) \<le> v" using assms(2) by (rule order_trans [rotated]) simp
  have "sint (ucast (word_of_int v :: 'a word) :: 64 word)
          = signed_take_bit 63 (uint (word_of_int v :: 'a word))"
    by (simp add: signed_ucast_eq)
  also have "\<dots> = signed_take_bit 63 v" by (simp only: u)
  also have "\<dots> = v" using ge lt by (rule signed_take_bit_int_eq_self)
  finally show ?thesis .
qed

lemma go_int_add_left: "go_int (go_int a + b) = go_int (a + b)"
proof -
  have "signed_take_bit 63 (signed_take_bit 63 a + b)
          = signed_take_bit 63 (signed_take_bit 63 (signed_take_bit 63 a) + signed_take_bit 63 b)"
    by (simp only: signed_take_bit_add)
  also have "\<dots> = signed_take_bit (63::nat) (signed_take_bit 63 a + signed_take_bit 63 b)"
    by simp
  also have "\<dots> = signed_take_bit 63 (a + b)"
    by (simp only: signed_take_bit_add)
  finally show ?thesis by (simp only: go_int_def)
qed

lemma bit_int_bounded:
  assumes "0 \<le> v" "v < 2 ^ k" "bit (v::int) n"
  shows "n < k"
proof -
  have "take_bit k v = v" using assms(1,2) by (simp add: take_bit_int_eq_self)
  then have "bit (take_bit k v) n" using assms(3) by simp
  then show ?thesis by (simp add: bit_take_bit_iff)
qed

lemma bit_int_byte_at:
  "bit (push_bit k (ucast (word_of_int (drop_bit k v) :: byte)) :: 64 word) n
     \<longleftrightarrow> k \<le> n \<and> n < k + 8 \<and> n < 64 \<and> bit (v::int) n"
  by (auto simp: bit_simps)

lemma bit_int_byte_0:
  "bit (ucast (word_of_int v :: byte) :: 64 word) n \<longleftrightarrow> n < 8 \<and> bit (v::int) n"
  by (auto simp: bit_simps)

lemma readUint24_writeUint24:
  assumes "0 \<le> v" "v < 2 ^ 24"
  shows "readUint24 bo (writeUint24 bo v) = Some (word_of_int v)"
proof -
  have r: "n < 24 \<Longrightarrow> n < 8 \<or> 8 \<le> n \<and> n < 8 + 8 \<or> 16 \<le> n \<and> n < 16 + 8" for n :: nat
    by arith
  have b: "bit v n \<Longrightarrow> n < 24" for n
    using assms by (rule bit_int_bounded)
  have "(ucast (word_of_int v :: byte) :: 64 word)
        OR push_bit 8 (ucast (word_of_int (drop_bit 8 v) :: byte))
        OR push_bit 16 (ucast (word_of_int (drop_bit 16 v) :: byte)) = word_of_int v"
    by (rule bit_word_eqI)
      (use r b in \<open>auto simp add: bit_or_iff bit_int_byte_at bit_int_byte_0 bit_word_of_int_iff\<close>)
  then show ?thesis
    by (cases bo) (simp_all add: readUint24_def writeUint24_def or.commute or.left_commute)
qed

section \<open>Length-field encoder: the output\<close>

lemma LengthField_Encode_Ok_nonneg:
  assumes "LengthFieldBasedFrameCodec_Encode ec f = Ok out"
  shows "0 \<le> length_field_value ec f"
  using assms LengthField_Encode_negative [of ec f] by (cases "0 \<le> length_field_value ec f") simp_all

lemma length_field_value_range:
  "- (2 ^ 63) \<le> length_field_value ec f \<and> length_field_value ec f < 2 ^ 63"
  using go_int_range by (simp add: length_field_value_def Let_def)

lemma LengthField_Encode_Ok:
  assumes "LengthFieldBasedFrameCodec_Encode ec f = Ok out"
  shows "enc_LengthFieldLength ec \<in> {1, 2, 3, 4, 8}"
    and "out = spec_serialise (enc_ByteOrder ec) (nat (enc_LengthFieldLength ec))
                 (length_field_value ec f) @ f"
    and "enc_LengthFieldLength ec \<noteq> 4 \<Longrightarrow>
           length_field_value ec f < 2 ^ (8 * nat (enc_LengthFieldLength ec))"
proof -
  let ?L = "length_field_value ec f" and ?w = "enc_LengthFieldLength ec"
  note nonneg = LengthField_Encode_Ok_nonneg [OF assms]
  note out = assms [unfolded LengthField_Encode_width [OF nonneg] Let_def]
  show w: "?w \<in> {1, 2, 3, 4, 8}"
    using out by (auto split: if_splits)
  have one: "spec_serialise (enc_ByteOrder ec) (Suc 0) ?L = [word_of_int ?L]"
    by (cases "enc_ByteOrder ec") (simp_all add: spec_serialise_def)
  show "out = spec_serialise (enc_ByteOrder ec) (nat ?w) ?L @ f"
    using out w
    by (auto simp add: one writeUint24_serialise PutUint16_serialise PutUint32_serialise
        PutUint64_serialise split: if_splits)
  show "?L < 2 ^ (8 * nat ?w)" if "?w \<noteq> 4"
  proof -
    have "?L < 2 ^ 63" using length_field_value_range by blast
    also have "(2::int) ^ 63 \<le> 2 ^ 64" by simp
    finally have "?L < 2 ^ 64" .
    then show ?thesis
      using out w that by (auto split: if_splits)
  qed
qed

text \<open>
  The length that \<^verbatim>\<open>Encode\<close> computes is the spec's \<open>L\<close>, wrapped to a 64-bit \<^verbatim>\<open>int\<close>; it is
  \<open>L\<close> itself whenever \<open>L\<close> is in the range of an \<^verbatim>\<open>int\<close>.
\<close>

lemma length_field_value_spec:
  "length_field_value ec f = go_int (spec_length_field ec f)"
  by (simp add: length_field_value_def spec_length_field_def Let_def go_int_add_left)

lemma length_field_value_spec_in_range:
  assumes "- (2 ^ 63) \<le> spec_length_field ec f" "spec_length_field ec f < 2 ^ 63"
  shows "length_field_value ec f = spec_length_field ec f"
  using assms by (simp only: length_field_value_spec go_int_id)

text \<open>
  The part of C8 that the code keeps. For every frame \<open>f\<close> and every length-field encoder
  config on which \<^verbatim>\<open>Encode\<close> succeeds: the width \<open>w\<close> is one of 1, 2, 3, 4, 8; the output is
  the length field followed by \<open>f\<close> unchanged, so its length is \<open>w + len(f)\<close>; the bytes of the
  length field are the \<open>w\<close> low bytes of \<open>L = len(f) + LengthAdjustment (+ w)\<close> in the
  configured endianness; for \<open>w = 3\<close> these are three bytes, most significant first under
  big-endian and least significant first under little-endian. The field holds \<open>L\<close> (read
  back as an unsigned number it is \<open>L\<close>) whenever \<open>L < 2^(8w)\<close>, which the success of
  \<^verbatim>\<open>Encode\<close> guarantees for every width but 4.
\<close>

lemma LengthField_Encode_output:
  assumes "Encode (LengthFieldBasedFrameCodec ec dc) f = Ok out"
    and "- (2 ^ 63) \<le> spec_length_field ec f" "spec_length_field ec f < 2 ^ 63"
  shows
    "(let L = int (length f) + enc_LengthAdjustment ec
                + (if enc_LengthIncludesLengthFieldLength ec then enc_LengthFieldLength ec else 0);
          w = enc_LengthFieldLength ec;
          field = spec_serialise (enc_ByteOrder ec) (nat w) L
      in w \<in> {1, 2, 3, 4, 8} \<and> 0 \<le> L
         \<and> out = field @ f
         \<and> int (length field) = w
         \<and> int (length out) = w + int (length f)
         \<and> (w = 3 \<longrightarrow>
              field = (if enc_ByteOrder ec = LittleEndian
                       then [word_of_int L, word_of_int (drop_bit 8 L), word_of_int (drop_bit 16 L)]
                       else [word_of_int (drop_bit 16 L), word_of_int (drop_bit 8 L), word_of_int L]))
         \<and> (L < 2 ^ (8 * nat w) \<longrightarrow> spec_field_value (enc_ByteOrder ec) field = L)
         \<and> (w \<noteq> 4 \<longrightarrow> L < 2 ^ (8 * nat w)))"
proof -
  let ?L = "length_field_value ec f" and ?w = "enc_LengthFieldLength ec"
  let ?field = "spec_serialise (enc_ByteOrder ec) (nat ?w) ?L"
  have L: "int (length f) + enc_LengthAdjustment ec
      + (if enc_LengthIncludesLengthFieldLength ec then enc_LengthFieldLength ec else 0) = ?L"
    using length_field_value_spec_in_range [OF assms(2,3)] by (simp add: spec_length_field_def)
  have enc: "LengthFieldBasedFrameCodec_Encode ec f = Ok out" using assms(1) by simp
  note w = LengthField_Encode_Ok(1) [OF enc]
  note out = LengthField_Encode_Ok(2) [OF enc]
  note nonneg = LengthField_Encode_Ok_nonneg [OF enc]
  have wpos: "0 \<le> ?w" using w by auto
  have flen: "int (length ?field) = ?w"
    using wpos by (simp add: spec_serialise_length)
  have olen: "int (length out) = ?w + int (length f)"
    by (subst out) (simp add: flen [simplified] spec_serialise_length wpos)
  have three: "?field = (if enc_ByteOrder ec = LittleEndian
       then [word_of_int ?L, word_of_int (drop_bit 8 ?L), word_of_int (drop_bit 16 ?L)]
       else [word_of_int (drop_bit 16 ?L), word_of_int (drop_bit 8 ?L), word_of_int ?L])"
    if "?w = 3"
    using that
    by (cases "enc_ByteOrder ec") (simp_all add: spec_serialise_def le_bytes_3)
  have readback: "spec_field_value (enc_ByteOrder ec) ?field = ?L" if "?L < 2 ^ (8 * nat ?w)"
    using that nonneg by (simp add: spec_field_value_serialise)
  have fit: "?L < 2 ^ (8 * nat ?w)" if "?w \<noteq> 4"
    using that by (rule LengthField_Encode_Ok(3) [OF enc])
  show ?thesis
    unfolding Let_def L
    using w nonneg out flen olen three readback fit by (intro conjI impI; assumption?)
qed

text \<open>
  C8, at the input where the code departs from it: a 4-byte big-endian length field that
  includes its own width, a length adjustment of \<open>2^32 - 4\<close> and the one-byte frame \<^verbatim>\<open>01\<close>, so
  that \<open>L = 1 + (2^32 - 4) + 4 = 2^32 + 1\<close>. The claim says that, \<^verbatim>\<open>Encode\<close> having succeeded,
  the length field holds \<open>L\<close>. The code succeeds and returns \<^verbatim>\<open>00 00 00 01 01\<close>: output is field
  followed by frame and its length is \<open>4 + 1\<close>, but the field holds 1, the low 32 bits of
  \<open>L\<close>. The cause is the missing range check in case 4 of the switch, the defect of C2.
\<close>

theorem LengthField_Encode_width_4_field_truncated:
  "spec_length_field
     \<lparr>enc_ByteOrder = BigEndian, enc_LengthFieldLength = 4, enc_LengthAdjustment = 4294967292,
      enc_LengthIncludesLengthFieldLength = True\<rparr> [1] = 4294967297
   \<and> length_field_value
     \<lparr>enc_ByteOrder = BigEndian, enc_LengthFieldLength = 4, enc_LengthAdjustment = 4294967292,
      enc_LengthIncludesLengthFieldLength = True\<rparr> [1] = 4294967297
   \<and> Encode (LengthFieldBasedFrameCodec
       \<lparr>enc_ByteOrder = BigEndian, enc_LengthFieldLength = 4, enc_LengthAdjustment = 4294967292,
        enc_LengthIncludesLengthFieldLength = True\<rparr>
       \<lparr>dec_ByteOrder = BigEndian, dec_LengthFieldOffset = 0, dec_LengthFieldLength = 4,
        dec_LengthAdjustment = 0, dec_InitialBytesToStrip = 0\<rparr>) [1]
     = Ok [0, 0, 0, 1, 1]
   \<and> spec_field_value BigEndian [0, 0, 0, 1] = 1"
proof -
  have g: "go_int 4294967293 = 4294967293" "go_int 4294967297 = 4294967297"
    by (simp_all add: go_int_def signed_take_bit_int_eq_self)
  have l: "length_field_value
     \<lparr>enc_ByteOrder = BigEndian, enc_LengthFieldLength = 4, enc_LengthAdjustment = 4294967292,
      enc_LengthIncludesLengthFieldLength = True\<rparr> [1] = 4294967297"
    by (simp add: length_field_value_def g)
  show ?thesis
    by (simp add: l spec_length_field_def LengthFieldBasedFrameCodec_Encode_def PutUint32_def
        spec_field_value_def)
qed

section \<open>Round trips\<close>

lemma BuiltIn_Decode:
  "fst (BuiltInFrameCodec_Decode c) = Ok (conn_bytes c)"
  "conn_bytes (snd (BuiltInFrameCodec_Decode c)) = []"
  by (simp_all add: BuiltInFrameCodec_Decode_def split_beta Read_fst ResetBuffer_bytes)

lemma first_index_append: "t \<notin> set f \<Longrightarrow> first_index (f @ [t]) t = length f"
  unfolding first_index_def by (induction f) auto

lemma readN_append:
  "0 < n \<Longrightarrow> int (length xs) = n \<Longrightarrow> readN (xs @ ys) n = Inr (xs, ys)"
  by (auto simp add: readN_def)

lemma PutUint_length:
  "length (PutUint16 bo v) = 2" "length (PutUint32 bo u) = 4" "length (PutUint64 bo x) = 8"
  "length (writeUint24 bo k) = 3"
  by (cases bo; simp add: PutUint16_def PutUint32_def PutUint64_def writeUint24_def)+

text \<open>
  The decoder reads back, from the bytes the encoder wrote for a length \<open>L\<close> that fits the
  field, the length field itself and the value \<open>L\<close>.
\<close>

lemma getUnadjustedFrameLength_1:
  assumes "dec_LengthFieldLength dc = 1" "0 \<le> L" "L < 2 ^ 8"
  shows "\<exists>F. getUnadjustedFrameLength dc ([word_of_int L] @ rest) = Ok ([word_of_int L], F, rest)
           \<and> sint F = L"
  using assms sint_ucast_small [where 'a = 8 and v = L]
  by (simp add: getUnadjustedFrameLength_def readN_def)

lemma getUnadjustedFrameLength_2:
  assumes "dec_LengthFieldLength dc = 2" "0 \<le> L" "L < 2 ^ 16"
  shows "\<exists>F. getUnadjustedFrameLength dc (PutUint16 (dec_ByteOrder dc) (word_of_int L) @ rest)
             = Ok (PutUint16 (dec_ByteOrder dc) (word_of_int L), F, rest)
           \<and> sint F = L"
  using assms sint_ucast_small [where 'a = 16 and v = L]
  by (simp add: getUnadjustedFrameLength_def readN_append PutUint_length Uint16_PutUint16)

lemma getUnadjustedFrameLength_3:
  assumes "dec_LengthFieldLength dc = 3" "0 \<le> L" "L < 2 ^ 24"
  shows "\<exists>F. getUnadjustedFrameLength dc (writeUint24 (dec_ByteOrder dc) L @ rest)
             = Ok (writeUint24 (dec_ByteOrder dc) L, F, rest)
           \<and> sint F = L"
proof -
  have "L < 2 ^ 63" using assms(3) by simp
  then have "sint (word_of_int L :: 64 word) = L"
    using assms(2) by (simp add: sint_sbintrunc' signed_take_bit_int_eq_self)
  then show ?thesis
    using assms
    by (simp add: getUnadjustedFrameLength_def readN_append PutUint_length readUint24_writeUint24)
qed

lemma getUnadjustedFrameLength_4:
  assumes "dec_LengthFieldLength dc = 4" "0 \<le> L" "L < 2 ^ 32"
  shows "\<exists>F. getUnadjustedFrameLength dc (PutUint32 (dec_ByteOrder dc) (word_of_int L) @ rest)
             = Ok (PutUint32 (dec_ByteOrder dc) (word_of_int L), F, rest)
           \<and> sint F = L"
  using assms sint_ucast_small [where 'a = 32 and v = L]
  by (simp add: getUnadjustedFrameLength_def readN_append PutUint_length Uint32_PutUint32)

lemma getUnadjustedFrameLength_8:
  assumes "dec_LengthFieldLength dc = 8" "0 \<le> L" "L < 2 ^ 63"
  shows "\<exists>F. getUnadjustedFrameLength dc (PutUint64 (dec_ByteOrder dc) (word_of_int L) @ rest)
             = Ok (PutUint64 (dec_ByteOrder dc) (word_of_int L), F, rest)
           \<and> sint F = L"
proof -
  have "sint (word_of_int L :: 64 word) = L"
    using assms(2,3) by (simp add: sint_sbintrunc' signed_take_bit_int_eq_self)
  then show ?thesis
    using assms
    by (simp add: getUnadjustedFrameLength_def readN_append PutUint_length Uint64_PutUint64)
qed

text \<open>
  With the decoder's adjustment the negative of what the encoder added to the frame length,
  the message length that the decoder computes from the length field is the frame length
  again: the wrap-around of the three additions cancels.
\<close>

lemma msgLength_of_symmetric:
  assumes "int (length f) < 2 ^ 63"
    and "sint F = length_field_value ec f"
    and "dec_LengthAdjustment dc
           = - (enc_LengthAdjustment ec
                + (if enc_LengthIncludesLengthFieldLength ec then enc_LengthFieldLength ec else 0))"
  shows "msgLength_of dc F = int (length f)"
proof -
  let ?n = "int (length f)" and ?a = "enc_LengthAdjustment ec" and ?w = "enc_LengthFieldLength ec"
  have n: "go_int ?n = ?n"
    using assms(1) by (intro go_int_id) simp_all
  show ?thesis
  proof (cases "enc_LengthIncludesLengthFieldLength ec")
    case True
    have "msgLength_of dc F = go_int (go_int (go_int (?n + ?a) + ?w) + (- (?a + ?w)))"
      using True assms(2,3) by (simp add: msgLength_of_def length_field_value_def Let_def)
    also have "\<dots> = go_int (go_int (?n + ?a) + ?w + (- (?a + ?w)))"
      by (rule go_int_add_left)
    also have "\<dots> = go_int (go_int (?n + ?a) + (- ?a))"
      by simp
    also have "\<dots> = go_int (?n + ?a + (- ?a))"
      by (rule go_int_add_left)
    also have "\<dots> = ?n" using n by simp
    finally show ?thesis .
  next
    case False
    have "msgLength_of dc F = go_int (go_int (?n + ?a) + (- ?a))"
      using False assms(2,3) by (simp add: msgLength_of_def length_field_value_def Let_def)
    also have "\<dots> = go_int (?n + ?a + (- ?a))"
      by (rule go_int_add_left)
    also have "\<dots> = ?n" using n by simp
    finally show ?thesis .
  qed
qed

lemma LengthField_round_trip:
  assumes enc: "LengthFieldBasedFrameCodec_Encode ec f = Ok wire"
    and ne: "f \<noteq> []"
    and small: "int (length f) < 2 ^ 63"
    and fit4: "enc_LengthFieldLength ec = 4 \<longrightarrow> length_field_value ec f < 2 ^ 32"
    and bo: "dec_ByteOrder dc = enc_ByteOrder ec"
    and w: "dec_LengthFieldLength dc = enc_LengthFieldLength ec"
    and off: "dec_LengthFieldOffset dc = 0"
    and adj: "dec_LengthAdjustment dc
           = - (enc_LengthAdjustment ec
                + (if enc_LengthIncludesLengthFieldLength ec then enc_LengthFieldLength ec else 0))"
    and strip: "0 \<le> dec_InitialBytesToStrip dc"
      "dec_InitialBytesToStrip dc \<le> enc_LengthFieldLength ec + int (length f)"
    and bytes: "conn_bytes c = wire"
  shows "fst (LengthFieldBasedFrameCodec_Decode dc c) = Ok (drop (nat (dec_InitialBytesToStrip dc)) wire)"
    and "conn_bytes (snd (LengthFieldBasedFrameCodec_Decode dc c)) = []"
    and "int (length wire) = enc_LengthFieldLength ec + int (length f)"
proof -
  let ?L = "length_field_value ec f" and ?w = "enc_LengthFieldLength ec"
  note nonneg = LengthField_Encode_Ok_nonneg [OF enc]
  have range: "?L < 2 ^ 63" using length_field_value_range by blast
  note out = enc [unfolded LengthField_Encode_width [OF nonneg] Let_def]
  have "\<exists>field F. wire = field @ f \<and> int (length field) = ?w
          \<and> getUnadjustedFrameLength dc (field @ f) = Ok (field, F, f) \<and> sint F = ?L"
  proof -
    consider "?w = 1" | "?w = 2" | "?w = 3" | "?w = 4" | "?w = 8"
      using LengthField_Encode_Ok(1) [OF enc] by auto
    then show ?thesis
    proof cases
      case 1
      then have "wire = [word_of_int ?L] @ f" "?L < 2 ^ 8"
        using out by (auto split: if_splits)
      then show ?thesis
        using getUnadjustedFrameLength_1 [of dc ?L f] 1 w nonneg by auto
    next
      case 2
      then have "wire = PutUint16 (enc_ByteOrder ec) (word_of_int ?L) @ f" "?L < 2 ^ 16"
        using out by (auto split: if_splits)
      then show ?thesis
        using getUnadjustedFrameLength_2 [of dc ?L f] 2 w bo nonneg
        by (auto simp add: PutUint_length)
    next
      case 3
      then have "wire = writeUint24 (enc_ByteOrder ec) ?L @ f" "?L < 2 ^ 24"
        using out by (auto split: if_splits)
      then show ?thesis
        using getUnadjustedFrameLength_3 [of dc ?L f] 3 w bo nonneg
        by (auto simp add: PutUint_length)
    next
      case 4
      then have "wire = PutUint32 (enc_ByteOrder ec) (word_of_int ?L) @ f" "?L < 2 ^ 32"
        using out fit4 by (auto split: if_splits)
      then show ?thesis
        using getUnadjustedFrameLength_4 [of dc ?L f] 4 w bo nonneg
        by (auto simp add: PutUint_length)
    next
      case 5
      then have "wire = PutUint64 (enc_ByteOrder ec) (word_of_int ?L) @ f"
        using out by (auto split: if_splits)
      then show ?thesis
        using getUnadjustedFrameLength_8 [of dc ?L f] 5 w bo nonneg range
        by (auto simp add: PutUint_length)
    qed
  qed
  then obtain field F where wire: "wire = field @ f" and flen: "int (length field) = ?w"
    and gl: "getUnadjustedFrameLength dc (field @ f) = Ok (field, F, f)" and F: "sint F = ?L"
    by blast
  have m: "msgLength_of dc F = int (length f)"
    using small F adj by (rule msgLength_of_symmetric)
  have dh: "discard_header dc (conn_bytes c) = Ok ([], field @ f)"
    using off by (simp add: discard_header_def bytes wire)
  have rd: "readN f (msgLength_of dc F) = Inr (f, [])"
    using ne by (simp add: m readN_def)
  show len: "int (length wire) = ?w + int (length f)"
    using flen by (simp add: wire)
  note res = LengthField_Decode_success(2,3) [OF dh gl rd]
  show "fst (LengthFieldBasedFrameCodec_Decode dc c) = Ok (drop (nat (dec_InitialBytesToStrip dc)) wire)"
    using res(1) strip len by (simp add: wire del: length_append)
  show "conn_bytes (snd (LengthFieldBasedFrameCodec_Decode dc c)) = []"
    using res(2) .
qed

text \<open>
  C3 as stated fails: the line codec cuts a frame that holds a newline at that newline. The
  frame \<^verbatim>\<open>a\nb\<close> is encoded as \<^verbatim>\<open>a\nb\n\<close>, and decoding these four bytes returns \<^verbatim>\<open>a\<close>.
\<close>

theorem LineBased_round_trip_cut:
  "Encode LineBasedFrameCodec [97, 10, 98] = Ok [97, 10, 98, 10]
   \<and> conn_bytes (conn_of [] [] [97, 10, 98, 10]) = [97, 10, 98, 10]
   \<and> fst (Decode LineBasedFrameCodec (conn_of [] [] [97, 10, 98, 10])) = Ok [97]
   \<and> fst (Decode LineBasedFrameCodec (conn_of [] [] [97, 10, 98, 10])) \<noteq> Ok [97, 10, 98]"
proof -
  have b: "conn_bytes (conn_of [] [] [97, 10, 98, 10]) = [97, 10, 98, 10]"
    by (simp add: conn_bytes_def conn_of_def RingBuffer_bytes_def)
  have i: "first_index [97, 10, 98, 10] CRLFByte = 1"
    by (simp add: first_index_def CRLFByte_def)
  have "CRLFByte \<in> set (conn_bytes (conn_of [] [] [97, 10, 98, 10]))"
    by (simp add: b CRLFByte_def)
  then have "fst (LineBasedFrameCodec_Decode (conn_of [] [] [97, 10, 98, 10])) = Ok [97]"
    by (simp add: LineBased_Decode_present b i)
  then show ?thesis
    by (simp add: b LineBasedFrameCodec_Encode_def CRLFByte_def)
qed

text \<open>
  C3, as amended. Let the bytes of \<^verbatim>\<open>C.Encode(f)\<close> be the logical contents of the connection
  buffer, however they are split between ring and scratch buffer. Then \<^verbatim>\<open>C.Decode\<close> returns
  \<open>f\<close> and leaves the buffer empty
  \<^item> for the pass-through codec, for every frame;
  \<^item> for the line and the delimiter codec, for every frame that does not hold the terminator;
  \<^item> for the fixed-length codec, for every frame of exactly the frame length;
  \<^item> for the length-field codec, for every non-empty frame whose length field value fits the
    field (which the success of \<^verbatim>\<open>Encode\<close> guarantees for every width but 4), under a decoder
    config symmetric to the encoder's (same byte order and width, offset 0, the adjustment
    the negative of what the encoder added to the frame length) and an
    \<^verbatim>\<open>InitialBytesToStrip\<close> of at most the encoded length: here \<^verbatim>\<open>Decode\<close> returns the encoded
    bytes without their first \<^verbatim>\<open>InitialBytesToStrip\<close> bytes, which is \<open>f\<close> itself when the
    strip count is the width of the length field.
  The frame is a Go slice, so that its length is below \<open>2^63\<close>.
\<close>

theorem codec_round_trip:
  "(Encode BuiltInFrameCodec f = Ok wire \<and> conn_bytes c = wire \<longrightarrow>
      fst (Decode BuiltInFrameCodec c) = Ok f
      \<and> conn_bytes (snd (Decode BuiltInFrameCodec c)) = [])
   \<and> (Encode LineBasedFrameCodec f = Ok wire \<and> conn_bytes c = wire \<and> CRLFByte \<notin> set f \<longrightarrow>
      fst (Decode LineBasedFrameCodec c) = Ok f
      \<and> conn_bytes (snd (Decode LineBasedFrameCodec c)) = [])
   \<and> (Encode (DelimiterBasedFrameCodec t) f = Ok wire \<and> conn_bytes c = wire \<and> t \<notin> set f \<longrightarrow>
      fst (Decode (DelimiterBasedFrameCodec t) c) = Ok f
      \<and> conn_bytes (snd (Decode (DelimiterBasedFrameCodec t) c)) = [])
   \<and> (Encode (FixedLengthFrameCodec n) f = Ok wire \<and> conn_bytes c = wire
        \<and> int (length f) = n \<longrightarrow>
      fst (Decode (FixedLengthFrameCodec n) c) = Ok f
      \<and> conn_bytes (snd (Decode (FixedLengthFrameCodec n) c)) = [])
   \<and> (Encode (LengthFieldBasedFrameCodec ec dc) f = Ok wire \<and> conn_bytes c = wire
        \<and> f \<noteq> [] \<and> int (length f) < 2 ^ 63
        \<and> (enc_LengthFieldLength ec = 4 \<longrightarrow> length_field_value ec f < 2 ^ 32)
        \<and> dec_ByteOrder dc = enc_ByteOrder ec
        \<and> dec_LengthFieldLength dc = enc_LengthFieldLength ec
        \<and> dec_LengthFieldOffset dc = 0
        \<and> dec_LengthAdjustment dc
            = - (enc_LengthAdjustment ec
                 + (if enc_LengthIncludesLengthFieldLength ec then enc_LengthFieldLength ec else 0))
        \<and> 0 \<le> dec_InitialBytesToStrip dc
        \<and> dec_InitialBytesToStrip dc \<le> enc_LengthFieldLength ec + int (length f) \<longrightarrow>
      fst (Decode (LengthFieldBasedFrameCodec ec dc) c)
        = Ok (drop (nat (dec_InitialBytesToStrip dc)) wire)
      \<and> (dec_InitialBytesToStrip dc = enc_LengthFieldLength ec \<longrightarrow>
           drop (nat (dec_InitialBytesToStrip dc)) wire = f)
      \<and> conn_bytes (snd (Decode (LengthFieldBasedFrameCodec ec dc) c)) = [])"
proof (intro conjI impI; (elim conjE)?)
  assume "Encode BuiltInFrameCodec f = Ok wire" "conn_bytes c = wire"
  then show "fst (Decode BuiltInFrameCodec c) = Ok f"
    and "conn_bytes (snd (Decode BuiltInFrameCodec c)) = []"
    by (simp_all add: BuiltIn_Decode BuiltInFrameCodec_Encode_def)
next
  assume h: "Encode LineBasedFrameCodec f = Ok wire" "conn_bytes c = wire" "CRLFByte \<notin> set f"
  then have b: "conn_bytes c = f @ [CRLFByte]"
    by (auto simp add: LineBasedFrameCodec_Encode_def)
  then have "CRLFByte \<in> set (conn_bytes c)" by simp
  then show "fst (Decode LineBasedFrameCodec c) = Ok f"
    and "conn_bytes (snd (Decode LineBasedFrameCodec c)) = []"
    using h(3) by (simp_all add: LineBased_Decode_present b first_index_append)
next
  assume h: "Encode (DelimiterBasedFrameCodec t) f = Ok wire" "conn_bytes c = wire" "t \<notin> set f"
  then have b: "conn_bytes c = f @ [t]"
    by (auto simp add: DelimiterBasedFrameCodec_Encode_def)
  then have "t \<in> set (conn_bytes c)" by simp
  then show "fst (Decode (DelimiterBasedFrameCodec t) c) = Ok f"
    and "conn_bytes (snd (Decode (DelimiterBasedFrameCodec t) c)) = []"
    using h(3) by (simp_all add: DelimiterBased_Decode_present b first_index_append)
next
  assume h: "Encode (FixedLengthFrameCodec n) f = Ok wire" "conn_bytes c = wire"
    "int (length f) = n"
  then have b: "conn_bytes c = f" and n: "n \<noteq> 0"
    by (auto simp add: FixedLengthFrameCodec_Encode_def split: if_splits)
  have pos: "0 < n" using n h(3) by linarith
  have le: "n \<le> BufferLength c" using h(3) by (simp add: BufferLength_conn_bytes b)
  show "fst (Decode (FixedLengthFrameCodec n) c) = Ok f"
    using FixedLength_Decode_enough(1) [OF pos le] h(3) by (simp add: b)
  show "conn_bytes (snd (Decode (FixedLengthFrameCodec n) c)) = []"
    using FixedLength_Decode_enough(2) [OF pos le] h(3) by (simp add: b)
next
  assume enc: "Encode (LengthFieldBasedFrameCodec ec dc) f = Ok wire"
    and bytes: "conn_bytes c = wire"
    and ne: "f \<noteq> []" and small: "int (length f) < 2 ^ 63"
    and fit4: "enc_LengthFieldLength ec = 4 \<longrightarrow> length_field_value ec f < 2 ^ 32"
    and bo: "dec_ByteOrder dc = enc_ByteOrder ec"
    and w: "dec_LengthFieldLength dc = enc_LengthFieldLength ec"
    and off: "dec_LengthFieldOffset dc = 0"
    and adj: "dec_LengthAdjustment dc
            = - (enc_LengthAdjustment ec
                 + (if enc_LengthIncludesLengthFieldLength ec then enc_LengthFieldLength ec else 0))"
    and strip: "0 \<le> dec_InitialBytesToStrip dc"
      "dec_InitialBytesToStrip dc \<le> enc_LengthFieldLength ec + int (length f)"
  have enc': "LengthFieldBasedFrameCodec_Encode ec f = Ok wire" using enc by simp
  note rt = LengthField_round_trip [OF enc' ne small fit4 bo w off adj strip bytes]
  show "fst (Decode (LengthFieldBasedFrameCodec ec dc) c)
      = Ok (drop (nat (dec_InitialBytesToStrip dc)) wire)"
    using rt(1) by simp
  show "conn_bytes (snd (Decode (LengthFieldBasedFrameCodec ec dc) c)) = []"
    using rt(2) by simp
  show "drop (nat (dec_InitialBytesToStrip dc)) wire = f"
    if "dec_InitialBytesToStrip dc = enc_LengthFieldLength ec"
  proof -
    let ?field = "spec_serialise (enc_ByteOrder ec) (nat (enc_LengthFieldLength ec))
        (length_field_value ec f)"
    have "wire = ?field @ f" by (rule LengthField_Encode_Ok(2) [OF enc'])
    moreover have "length ?field = nat (dec_InitialBytesToStrip dc)"
      using that by (simp add: spec_serialise_length)
    ultimately show ?thesis by simp
  qed
qed

theorem codec_round_trip_witness:
  "fst (Decode BuiltInFrameCodec (conn_of [1] [] [2])) = Ok [1, 2]
   \<and> fst (Decode LineBasedFrameCodec (conn_of [] [] [104, 105, 10])) = Ok [104, 105]
   \<and> fst (Decode (DelimiterBasedFrameCodec 0) (conn_of [102] [] [111, 111, 0])) = Ok [102, 111, 111]
   \<and> fst (Decode (FixedLengthFrameCodec 4) (conn_of [] [] [65, 66, 67, 68])) = Ok [65, 66, 67, 68]
   \<and> Encode (LengthFieldBasedFrameCodec
        \<lparr>enc_ByteOrder = BigEndian, enc_LengthFieldLength = 4, enc_LengthAdjustment = 0,
         enc_LengthIncludesLengthFieldLength = True\<rparr>
        \<lparr>dec_ByteOrder = BigEndian, dec_LengthFieldOffset = 0, dec_LengthFieldLength = 4,
         dec_LengthAdjustment = - 4, dec_InitialBytesToStrip = 4\<rparr>) [97, 98, 99]
       = Ok [0, 0, 0, 7, 97, 98, 99]
   \<and> fst (Decode (LengthFieldBasedFrameCodec
        \<lparr>enc_ByteOrder = BigEndian, enc_LengthFieldLength = 4, enc_LengthAdjustment = 0,
         enc_LengthIncludesLengthFieldLength = True\<rparr>
        \<lparr>dec_ByteOrder = BigEndian, dec_LengthFieldOffset = 0, dec_LengthFieldLength = 4,
         dec_LengthAdjustment = - 4, dec_InitialBytesToStrip = 4\<rparr>)
        (conn_of [0, 0] [0] [7, 97, 98, 99]))
       = Ok [97, 98, 99]"
proof -
  let ?ec = "\<lparr>enc_ByteOrder = BigEndian, enc_LengthFieldLength = 4, enc_LengthAdjustment = 0,
         enc_LengthIncludesLengthFieldLength = True\<rparr>"
  let ?dc = "\<lparr>dec_ByteOrder = BigEndian, dec_LengthFieldOffset = 0, dec_LengthFieldLength = 4,
         dec_LengthAdjustment = - 4, dec_InitialBytesToStrip = 4\<rparr>"
  have b: "conn_bytes (conn_of [1] [] [2]) = [1, 2]"
    "conn_bytes (conn_of [] [] [104, 105, 10]) = [104, 105, 10]"
    "conn_bytes (conn_of [102] [] [111, 111, 0]) = [102, 111, 111, 0]"
    "conn_bytes (conn_of [] [] [65, 66, 67, 68]) = [65, 66, 67, 68]"
    "conn_bytes (conn_of [0, 0] [0] [7, 97, 98, 99]) = [0, 0, 0, 7, 97, 98, 99]"
    by (simp_all add: conn_bytes_def conn_of_def RingBuffer_bytes_def)
  have g: "go_int 3 = 3" "go_int 7 = 7"
    by (simp_all add: go_int_def signed_take_bit_int_eq_self)
  have l: "length_field_value ?ec [97, 98, 99] = 7"
    by (simp add: length_field_value_def g)
  have e1: "Encode BuiltInFrameCodec [1, 2] = Ok [1, 2]"
    by (simp add: BuiltInFrameCodec_Encode_def)
  have e2: "Encode LineBasedFrameCodec [104, 105] = Ok [104, 105, 10]"
    by (simp add: LineBasedFrameCodec_Encode_def CRLFByte_def)
  have e3: "Encode (DelimiterBasedFrameCodec 0) [102, 111, 111] = Ok [102, 111, 111, 0]"
    by (simp add: DelimiterBasedFrameCodec_Encode_def)
  have e4: "Encode (FixedLengthFrameCodec 4) [65, 66, 67, 68] = Ok [65, 66, 67, 68]"
    by (simp add: FixedLengthFrameCodec_Encode_def go_rem_def)
  have e5: "Encode (LengthFieldBasedFrameCodec ?ec ?dc) [97, 98, 99] = Ok [0, 0, 0, 7, 97, 98, 99]"
    by (simp add: LengthFieldBasedFrameCodec_Encode_def l PutUint32_def)
  have r1: "fst (Decode BuiltInFrameCodec (conn_of [1] [] [2])) = Ok [1, 2]"
    using codec_round_trip [where f = "[1, 2]" and wire = "[1, 2]" and c = "conn_of [1] [] [2]"]
      e1 b(1) by simp
  have r2: "fst (Decode LineBasedFrameCodec (conn_of [] [] [104, 105, 10])) = Ok [104, 105]"
    using codec_round_trip [where f = "[104, 105]" and wire = "[104, 105, 10]"
        and c = "conn_of [] [] [104, 105, 10]"] e2 b(2)
    by (simp add: CRLFByte_def)
  have r3: "fst (Decode (DelimiterBasedFrameCodec 0) (conn_of [102] [] [111, 111, 0]))
      = Ok [102, 111, 111]"
    using codec_round_trip [where f = "[102, 111, 111]" and wire = "[102, 111, 111, 0]"
        and c = "conn_of [102] [] [111, 111, 0]" and t = 0] e3 b(3)
    by simp
  have r4: "fst (Decode (FixedLengthFrameCodec 4) (conn_of [] [] [65, 66, 67, 68]))
      = Ok [65, 66, 67, 68]"
    using codec_round_trip [where f = "[65, 66, 67, 68]" and wire = "[65, 66, 67, 68]"
        and c = "conn_of [] [] [65, 66, 67, 68]" and n = 4] e4 b(4)
    by simp
  have r5: "fst (Decode (LengthFieldBasedFrameCodec ?ec ?dc) (conn_of [0, 0] [0] [7, 97, 98, 99]))
      = Ok [97, 98, 99]"
    using codec_round_trip [where f = "[97, 98, 99]" and wire = "[0, 0, 0, 7, 97, 98, 99]"
        and c = "conn_of [0, 0] [0] [7, 97, 98, 99]" and ec = ?ec and dc = ?dc] e5 b(5)
    by (simp add: l)
  from r1 r2 r3 r4 e5 r5 show ?thesis by simp
qed

end
